theory Spec2Isabelle
  imports Main
begin

section \<open>JavaScript values\<close>

text \<open>
  The two services are TypeScript classes compiled to JavaScript. Cell values, indexed
  fields and search operands are untyped (\<open>any\<close>), so they are modelled by one datatype
  of JavaScript values. \<open>VNum n\<close> stands for the integer-valued Number \<open>n\<close>; strings are
  sequences of code units (here: of the 256 characters of \<open>char\<close>). An object is the
  list of its own enumerable properties in the order in which they were written (the
  language enumerates property names that are array indices first; no claim depends on
  that). Two values built with \<open>VArr\<close> or \<open>VObj\<close> always stand for two distinct object
  references. Numbers that are not integers, \<open>NaN\<close> and the infinities are not values of
  the model, and rounding is not modelled.
\<close>

datatype jsval =
    VUndefined
  | VNull
  | VBool bool
  | VNum int
  | VStr string
  | VArr "jsval list"
  | VObj "(string \<times> jsval) list"

text \<open>The \<open>typeof\<close> operator.\<close>

fun typeof :: "jsval \<Rightarrow> string" where
  "typeof VUndefined = ''undefined''"
| "typeof VNull = ''object''"
| "typeof (VBool b) = ''boolean''"
| "typeof (VNum n) = ''number''"
| "typeof (VStr s) = ''string''"
| "typeof (VArr xs) = ''object''"
| "typeof (VObj kvs) = ''object''"

text \<open>Truthiness (\<open>ToBoolean\<close>), as used by \<open>||\<close>, \<open>&&\<close>, \<open>!\<close> and \<open>if\<close>.\<close>

fun ToBoolean :: "jsval \<Rightarrow> bool" where
  "ToBoolean VUndefined = False"
| "ToBoolean VNull = False"
| "ToBoolean (VBool b) = b"
| "ToBoolean (VNum n) = (n \<noteq> 0)"
| "ToBoolean (VStr s) = (s \<noteq> [])"
| "ToBoolean (VArr xs) = True"
| "ToBoolean (VObj kvs) = True"

text \<open>
  An optional number or string property (\<open>timestamp\<close>, \<open>limit\<close>, \<open>prefix\<close>, ...) is an
  \<open>option\<close>: \<open>None\<close> is a missing property. Both a missing property and the values
  \<open>0\<close> and \<open>""\<close> are falsy.
\<close>

fun truthy_num :: "int option \<Rightarrow> bool" where
  "truthy_num None = False"
| "truthy_num (Some n) = (n \<noteq> 0)"

fun truthy_str :: "string option \<Rightarrow> bool" where
  "truthy_str None = False"
| "truthy_str (Some s) = (s \<noteq> [])"

text \<open>Comparison of two strings with \<open><\<close>: lexicographic on the code units.\<close>

fun str_less :: "string \<Rightarrow> string \<Rightarrow> bool" where
  "str_less [] [] = False"
| "str_less [] (y # ys) = True"
| "str_less (x # xs) [] = False"
| "str_less (x # xs) (y # ys) =
     (if x = y then str_less xs ys else (of_char x :: nat) < of_char y)"

text \<open>\<open>String.prototype.startsWith\<close> and \<open>endsWith\<close>.\<close>

fun startsWith :: "string \<Rightarrow> string \<Rightarrow> bool" where
  "startsWith s [] = True"
| "startsWith [] (p # ps) = False"
| "startsWith (c # cs) (p # ps) = (c = p \<and> startsWith cs ps)"

definition endsWith :: "string \<Rightarrow> string \<Rightarrow> bool" where
  "endsWith s p = startsWith (rev s) (rev p)"

text \<open>\<open>column.split(":")[0]\<close>: the text before the first colon (all of it without one).\<close>

definition split_colon_0 :: "string \<Rightarrow> string" where
  "split_colon_0 column = takeWhile (\<lambda>c. c \<noteq> CHR '':'') column"

section \<open>Keyed collections\<close>

text \<open>
  A \<open>Map\<close> and the own properties of an object both keep their keys in insertion order:
  writing an existing key replaces the value in place, writing a new key appends it.
\<close>

fun kv_get :: "('k \<times> 'v) list \<Rightarrow> 'k \<Rightarrow> 'v option" where
  "kv_get [] k = None"
| "kv_get ((k', v) # kvs) k = (if k' = k then Some v else kv_get kvs k)"

fun kv_has :: "('k \<times> 'v) list \<Rightarrow> 'k \<Rightarrow> bool" where
  "kv_has [] k = False"
| "kv_has ((k', v) # kvs) k = (k' = k \<or> kv_has kvs k)"

fun kv_set :: "'k \<Rightarrow> 'v \<Rightarrow> ('k \<times> 'v) list \<Rightarrow> ('k \<times> 'v) list" where
  "kv_set k v [] = [(k, v)]"
| "kv_set k v ((k', v') # kvs) =
     (if k' = k then (k, v) # kvs else (k', v') # kv_set k v kvs)"

fun kv_delete :: "'k \<Rightarrow> ('k \<times> 'v) list \<Rightarrow> ('k \<times> 'v) list" where
  "kv_delete k [] = []"
| "kv_delete k ((k', v) # kvs) = (if k' = k then kvs else (k', v) # kv_delete k kvs)"

section \<open>The table store (BigtableService)\<close>

record cell =
  cell_value :: jsval
  cell_timestamp :: int

record row =
  rowKey :: string
  columns :: "(string \<times> cell) list"
  timestamp :: "int option"

record table =
  name :: string
  rows :: "(string \<times> row) list"
  columnFamilies :: "string list"

record bigtable_query =
  q_prefix :: "string option"
  q_startKey :: "string option"
  q_endKey :: "string option"
  q_limit :: "int option"
  q_columnFamilies :: "string list option"
  q_columns :: "string list option"

record service =
  tables :: "(string \<times> table) list"

text \<open>
  Every \<open>throw new Error(...)\<close> of the store is a constructor carrying what the message
  interpolates; \<open>TypeError\<close> is the error the language raises when a value that is not a
  function is called.
\<close>

datatype error =
    AlreadyExists string
  | NotFound string
  | CapacityExceeded string
  | InvalidColumnFamily string string
  | KeyTooLong
  | TypeError

definition MAX_TABLE_SIZE :: nat where
  "MAX_TABLE_SIZE = 10000"

text \<open>
  A method that mutates the store returns the outcome together with the store after the
  call: an exception does not roll anything back, so the store is returned in the error
  case as well.
\<close>

definition createTable :: "service \<Rightarrow> string \<Rightarrow> string list \<Rightarrow> (error + table) \<times> service" where
  "createTable svc nm fams =
     (if kv_has (tables svc) nm then (Inl (AlreadyExists nm), svc)
      else (let t = \<lparr> name = nm, rows = [], columnFamilies = fams \<rparr>
            in (Inr t, svc\<lparr> tables := kv_set nm t (tables svc) \<rparr>)))"

definition getTable :: "service \<Rightarrow> string \<Rightarrow> error + table" where
  "getTable svc nm =
     (case kv_get (tables svc) nm of
        None \<Rightarrow> Inl (NotFound nm)
      | Some t \<Rightarrow> Inr t)"

definition deleteTable :: "service \<Rightarrow> string \<Rightarrow> bool \<times> service" where
  "deleteTable svc nm = (kv_has (tables svc) nm, svc\<lparr> tables := kv_delete nm (tables svc) \<rparr>)"

definition listTables :: "service \<Rightarrow> string list" where
  "listTables svc = map fst (tables svc)"

text \<open>The \<open>for (const column in row.columns)\<close> loop of \<open>upsertRow\<close>: it throws at the first
  column whose family the table does not declare.\<close>

fun validateColumnFamilies :: "table \<Rightarrow> string \<Rightarrow> (string \<times> cell) list \<Rightarrow> error option" where
  "validateColumnFamilies t tableName [] = None"
| "validateColumnFamilies t tableName ((column, c) # rest) =
     (let columnFamily = split_colon_0 column
      in if columnFamily \<notin> set (columnFamilies t)
         then Some (InvalidColumnFamily columnFamily tableName)
         else validateColumnFamilies t tableName rest)"

text \<open>\<open>now\<close> is what \<open>Date.now()\<close> returns during the call.\<close>

definition upsertRow :: "service \<Rightarrow> string \<Rightarrow> row \<Rightarrow> int \<Rightarrow> error option \<times> service" where
  "upsertRow svc tableName r now =
     (case getTable svc tableName of
        Inl e \<Rightarrow> (Some e, svc)
      | Inr t \<Rightarrow>
          if length (rows t) \<ge> MAX_TABLE_SIZE \<and> \<not> kv_has (rows t) (rowKey r)
          then (Some (CapacityExceeded tableName), svc)
          else (case validateColumnFamilies t tableName (columns r) of
                  Some e \<Rightarrow> (Some e, svc)
                | None \<Rightarrow>
                    (let stored = r\<lparr> timestamp :=
                           Some (if truthy_num (timestamp r) then the (timestamp r) else now) \<rparr>;
                         t' = t\<lparr> rows := kv_set (rowKey r) stored (rows t) \<rparr>
                     in (None, svc\<lparr> tables := kv_set tableName t' (tables svc) \<rparr>))))"

definition getRow :: "service \<Rightarrow> string \<Rightarrow> string \<Rightarrow> error + row option" where
  "getRow svc tableName k =
     (case getTable svc tableName of
        Inl e \<Rightarrow> Inl e
      | Inr t \<Rightarrow> Inr (kv_get (rows t) k))"

definition deleteRow :: "service \<Rightarrow> string \<Rightarrow> string \<Rightarrow> (error + bool) \<times> service" where
  "deleteRow svc tableName k =
     (case getTable svc tableName of
        Inl e \<Rightarrow> (Inl e, svc)
      | Inr t \<Rightarrow>
          (Inr (kv_has (rows t) k),
           svc\<lparr> tables := kv_set tableName (t\<lparr> rows := kv_delete k (rows t) \<rparr>) (tables svc) \<rparr>))"

text \<open>The loop of \<open>filterRowColumns\<close> over \<open>Object.entries(row.columns)\<close>.\<close>

fun filterColumns :: "bigtable_query \<Rightarrow> (string \<times> cell) list \<Rightarrow> (string \<times> cell) list
    \<Rightarrow> (string \<times> cell) list" where
  "filterColumns q [] filteredColumns = filteredColumns"
| "filterColumns q ((column, c) # rest) filteredColumns =
     (let columnFamily = split_colon_0 column
      in if q_columnFamilies q \<noteq> None \<and> columnFamily \<notin> set (the (q_columnFamilies q))
         then filterColumns q rest filteredColumns
         else if q_columns q \<noteq> None \<and> column \<notin> set (the (q_columns q))
         then filterColumns q rest filteredColumns
         else filterColumns q rest (kv_set column c filteredColumns))"

definition filterRowColumns :: "row \<Rightarrow> bigtable_query \<Rightarrow> row" where
  "filterRowColumns r q =
     \<lparr> rowKey = rowKey r, columns = filterColumns q (columns r) [], timestamp = timestamp r \<rparr>"

text \<open>
  The loop of \<open>query\<close> over \<open>table.rows.entries()\<close>, with the result array as accumulator.
  Each \<open>continue\<close> goes to the next entry without the limit test; \<open>break\<close> returns.
\<close>

fun query_loop :: "bigtable_query \<Rightarrow> (string \<times> row) list \<Rightarrow> row list \<Rightarrow> row list" where
  "query_loop q [] result = result"
| "query_loop q ((k, r) # rest) result =
     (if truthy_str (q_prefix q) \<and> \<not> startsWith k (the (q_prefix q))
      then query_loop q rest result
      else if truthy_str (q_startKey q) \<and> str_less k (the (q_startKey q))
      then query_loop q rest result
      else if truthy_str (q_endKey q) \<and> str_less (the (q_endKey q)) k
      then query_loop q rest result
      else
        (let result' =
           (if q_columnFamilies q \<noteq> None \<or> q_columns q \<noteq> None
            then (let filteredRow = filterRowColumns r q
                  in if length (columns filteredRow) > 0 then result @ [filteredRow]
                     else result)
            else result @ [r])
         in if truthy_num (q_limit q) \<and> int (length result') \<ge> the (q_limit q)
            then result'
            else query_loop q rest result'))"

definition query :: "service \<Rightarrow> string \<Rightarrow> bigtable_query \<Rightarrow> error + row list" where
  "query svc tableName q =
     (case getTable svc tableName of
        Inl e \<Rightarrow> Inl e
      | Inr t \<Rightarrow> Inr (query_loop q (rows t) []))"

text \<open>The constructor: an empty \<open>Map\<close> of tables, then the four default tables.\<close>

definition initializeDefaultTables :: "service \<Rightarrow> error option \<times> service" where
  "initializeDefaultTables svc =
     (case createTable svc ''webpages'' [''metadata'', ''content'', ''links'', ''ranking''] of
        (Inl e, s1) \<Rightarrow> (Some e, s1)
      | (Inr t1, s1) \<Rightarrow>
     (case createTable s1 ''keywords'' [''pages'', ''stats''] of
        (Inl e, s2) \<Rightarrow> (Some e, s2)
      | (Inr t2, s2) \<Rightarrow>
     (case createTable s2 ''crawl_queue'' [''status'', ''metadata''] of
        (Inl e, s3) \<Rightarrow> (Some e, s3)
      | (Inr t3, s3) \<Rightarrow>
     (case createTable s3 ''user_data'' [''search_history'', ''preferences''] of
        (Inl e, s4) \<Rightarrow> (Some e, s4)
      | (Inr t4, s4) \<Rightarrow> (None, s4)))))"

definition bigtableService :: service where
  "bigtableService = snd (initializeDefaultTables \<lparr> tables = [] \<rparr>)"

section \<open>Conversions and comparison\<close>

text \<open>
  The operators \<open><=\<close>, \<open>>=\<close>, \<open>===\<close> and \<open>!==\<close>, \<open>Number(...)\<close>, \<open>Array.prototype.join\<close> and the
  two \<open>includes\<close> methods that the index layer applies to untyped values, after the
  ECMAScript abstract operations of the same names. \<open>None\<close> is \<open>NaN\<close> in \<open>ToNumber\<close> and the
  undefined outcome in \<open>IsLessThan\<close>.
\<close>

fun join :: "string \<Rightarrow> string list \<Rightarrow> string" where
  "join sep [] = []"
| "join sep [x] = x"
| "join sep (x # y # ys) = x @ sep @ join sep (y # ys)"

fun nat_digits :: "nat \<Rightarrow> string" where
  "nat_digits n =
     (if n < 10 then [''0123456789'' ! n]
      else nat_digits (n div 10) @ [''0123456789'' ! (n mod 10)])"

declare nat_digits.simps [simp del]

definition int_digits :: "int \<Rightarrow> string" where
  "int_digits n = (if n < 0 then CHR ''-'' # nat_digits (nat (- n)) else nat_digits (nat n))"

fun ToString :: "jsval \<Rightarrow> string" where
  "ToString VUndefined = ''undefined''"
| "ToString VNull = ''null''"
| "ToString (VBool b) = (if b then ''true'' else ''false'')"
| "ToString (VNum n) = int_digits n"
| "ToString (VStr s) = s"
| "ToString (VArr xs) =
     join '','' (map (\<lambda>x. if x = VUndefined \<or> x = VNull then [] else ToString x) xs)"
| "ToString (VObj kvs) = ''[object Object]''"

text \<open>
  \<open>StringToNumber\<close> reads decimal integer literals, with surrounding white space and a sign;
  the empty string is 0. A numeral with a fraction, an exponent or a radix prefix, and
  \<open>Infinity\<close>, denote Numbers that \<open>VNum\<close> does not have or that are not modelled: like text
  that is no numeral they give \<open>None\<close>. No statement below compares or converts such a
  string.
\<close>

definition is_white :: "char \<Rightarrow> bool" where
  "is_white c = (of_char c \<in> {9, 10, 11, 12, 13, 32, 160 :: nat})"

definition trim :: "string \<Rightarrow> string" where
  "trim s = rev (dropWhile is_white (rev (dropWhile is_white s)))"

definition digit_value :: "char \<Rightarrow> nat option" where
  "digit_value c =
     (if 48 \<le> (of_char c :: nat) \<and> (of_char c :: nat) \<le> 57 then Some (of_char c - 48)
      else None)"

fun digits_value :: "string \<Rightarrow> nat \<Rightarrow> nat option" where
  "digits_value [] acc = Some acc"
| "digits_value (c # cs) acc =
     (case digit_value c of
        None \<Rightarrow> None
      | Some d \<Rightarrow> digits_value cs (10 * acc + d))"

definition StringToNumber :: "string \<Rightarrow> int option" where
  "StringToNumber s =
     (case trim s of
        [] \<Rightarrow> Some 0
      | c # cs \<Rightarrow>
          if c = CHR ''-'' \<and> cs \<noteq> [] then map_option (\<lambda>n. - int n) (digits_value cs 0)
          else if c = CHR ''+'' \<and> cs \<noteq> [] then map_option int (digits_value cs 0)
          else map_option int (digits_value (c # cs) 0))"

fun ToPrimitive :: "jsval \<Rightarrow> jsval" where
  "ToPrimitive (VArr xs) = VStr (ToString (VArr xs))"
| "ToPrimitive (VObj kvs) = VStr (ToString (VObj kvs))"
| "ToPrimitive v = v"

fun ToNumber :: "jsval \<Rightarrow> int option" where
  "ToNumber VUndefined = None"
| "ToNumber VNull = Some 0"
| "ToNumber (VBool b) = Some (if b then 1 else 0)"
| "ToNumber (VNum n) = Some n"
| "ToNumber (VStr s) = StringToNumber s"
| "ToNumber (VArr xs) = StringToNumber (ToString (VArr xs))"
| "ToNumber (VObj kvs) = StringToNumber (ToString (VObj kvs))"

text \<open>
  \<open>x < y\<close> is \<open>IsLessThan x y = Some True\<close>. The source uses \<open>a <= b\<close>, which is true when
  \<open>b < a\<close> is false, and false when \<open>b < a\<close> is true or undefined; likewise \<open>a >= b\<close>.
\<close>

fun IsLessThan_prim :: "jsval \<Rightarrow> jsval \<Rightarrow> bool option" where
  "IsLessThan_prim (VStr a) (VStr b) = Some (str_less a b)"
| "IsLessThan_prim px py =
     (case ToNumber px of
        None \<Rightarrow> None
      | Some nx \<Rightarrow> (case ToNumber py of None \<Rightarrow> None | Some ny \<Rightarrow> Some (nx < ny)))"

definition IsLessThan :: "jsval \<Rightarrow> jsval \<Rightarrow> bool option" where
  "IsLessThan x y = IsLessThan_prim (ToPrimitive x) (ToPrimitive y)"

definition js_le :: "jsval \<Rightarrow> jsval \<Rightarrow> bool" where
  "js_le a b = (IsLessThan b a = Some False)"

definition js_ge :: "jsval \<Rightarrow> jsval \<Rightarrow> bool" where
  "js_ge a b = (IsLessThan a b = Some False)"

text \<open>\<open>===\<close>; on the values of the model it is also the \<open>SameValueZero\<close> that
  \<open>Array.prototype.includes\<close> uses. Two objects are equal only when they are the same
  reference, which two values of the model never are.\<close>

fun strict_equal :: "jsval \<Rightarrow> jsval \<Rightarrow> bool" where
  "strict_equal VUndefined VUndefined = True"
| "strict_equal VNull VNull = True"
| "strict_equal (VBool a) (VBool b) = (a = b)"
| "strict_equal (VNum a) (VNum b) = (a = b)"
| "strict_equal (VStr a) (VStr b) = (a = b)"
| "strict_equal a b = False"

fun is_substring :: "string \<Rightarrow> string \<Rightarrow> bool" where
  "is_substring p [] = (p = [])"
| "is_substring p (c # cs) = (startsWith (c # cs) p \<or> is_substring p cs)"

text \<open>\<open>operand.includes(v)\<close>: membership for an array, substring search for a string, and a
  \<open>TypeError\<close> for every other operand, which has no such method.\<close>

fun js_includes :: "jsval \<Rightarrow> jsval \<Rightarrow> error + bool" where
  "js_includes (VArr xs) v = Inr (list_ex (\<lambda>x. strict_equal x v) xs)"
| "js_includes (VStr s) v = Inr (is_substring (ToString v) s)"
| "js_includes c v = Inl TypeError"

text \<open>Reading a property such as \<open>value.$gt\<close>: \<open>undefined\<close> when the object does not have it.
  It is used for the operator names only, which no array has.\<close>

fun get_prop :: "jsval \<Rightarrow> string \<Rightarrow> jsval" where
  "get_prop (VObj kvs) k = (case kv_get kvs k of None \<Rightarrow> VUndefined | Some v \<Rightarrow> v)"
| "get_prop v k = VUndefined"

section \<open>JSON\<close>

text \<open>
  \<open>JSON.stringify\<close> and \<open>JSON.parse\<close> on the values of the model. \<open>JSON_stringify\<close> is \<open>None\<close>
  where the method returns \<open>undefined\<close>; \<open>JSON_parse\<close> is \<open>None\<close> where it throws a
  \<open>SyntaxError\<close>, and also on a text with a fraction, an exponent or a \<open>\u\<close> escape above
  \<open>00FF\<close>, whose value the model does not have. The parser is a recursive descent with
  fuel.
\<close>

definition json_escape :: "char \<Rightarrow> string" where
  "json_escape c =
     (let n = of_char c :: nat
      in if n = 34 then [CHR 0x5C, CHR 0x22]
         else if n = 92 then [CHR 0x5C, CHR 0x5C]
         else if n = 8 then [CHR 0x5C, CHR ''b'']
         else if n = 9 then [CHR 0x5C, CHR ''t'']
         else if n = 10 then [CHR 0x5C, CHR ''n'']
         else if n = 12 then [CHR 0x5C, CHR ''f'']
         else if n = 13 then [CHR 0x5C, CHR ''r'']
         else if n < 32 then [CHR 0x5C, CHR ''u'', CHR ''0'', CHR ''0'',
                ''0123456789abcdef'' ! (n div 16), ''0123456789abcdef'' ! (n mod 16)]
         else [c])"

definition QuoteJSONString :: "string \<Rightarrow> string" where
  "QuoteJSONString s = CHR 0x22 # concat (map json_escape s) @ [CHR 0x22]"

fun JSON_stringify :: "jsval \<Rightarrow> string option"
  and stringify_elements :: "jsval list \<Rightarrow> string list"
  and stringify_members :: "(string \<times> jsval) list \<Rightarrow> string list" where
  "JSON_stringify VUndefined = None"
| "JSON_stringify VNull = Some ''null''"
| "JSON_stringify (VBool b) = Some (if b then ''true'' else ''false'')"
| "JSON_stringify (VNum n) = Some (int_digits n)"
| "JSON_stringify (VStr s) = Some (QuoteJSONString s)"
| "JSON_stringify (VArr xs) = Some (''['' @ join '','' (stringify_elements xs) @ '']'')"
| "JSON_stringify (VObj kvs) = Some (''{'' @ join '','' (stringify_members kvs) @ ''}'')"
| "stringify_elements [] = []"
| "stringify_elements (x # xs) =
     (case JSON_stringify x of None \<Rightarrow> ''null'' | Some s \<Rightarrow> s) # stringify_elements xs"
| "stringify_members [] = []"
| "stringify_members ((k, v) # kvs) =
     (case JSON_stringify v of
        None \<Rightarrow> stringify_members kvs
      | Some s \<Rightarrow> (QuoteJSONString k @ '':'' @ s) # stringify_members kvs)"

definition is_json_ws :: "char \<Rightarrow> bool" where
  "is_json_ws c = (of_char c \<in> {9, 10, 13, 32 :: nat})"

definition skip_ws :: "string \<Rightarrow> string" where
  "skip_ws s = dropWhile is_json_ws s"

definition hex_value :: "char \<Rightarrow> nat option" where
  "hex_value c =
     (let n = of_char c :: nat
      in if 48 \<le> n \<and> n \<le> 57 then Some (n - 48)
         else if 97 \<le> n \<and> n \<le> 102 then Some (n - 87)
         else if 65 \<le> n \<and> n \<le> 70 then Some (n - 55)
         else None)"

definition unicode_escape :: "char \<Rightarrow> char \<Rightarrow> char \<Rightarrow> char \<Rightarrow> char option" where
  "unicode_escape a b c d =
     (case (hex_value a, hex_value b, hex_value c, hex_value d) of
        (Some h1, Some h2, Some h3, Some h4) \<Rightarrow>
          if h1 = 0 \<and> h2 = 0 then Some (char_of (16 * h3 + h4)) else None
      | _ \<Rightarrow> None)"

definition simple_escape :: "char \<Rightarrow> char option" where
  "simple_escape e =
     (if e = CHR 0x22 then Some (CHR 0x22)
      else if e = CHR 0x5C then Some (CHR 0x5C)
      else if e = CHR ''/'' then Some (CHR ''/'')
      else if e = CHR ''b'' then Some (CHR 0x08)
      else if e = CHR ''f'' then Some (CHR 0x0C)
      else if e = CHR ''n'' then Some (CHR 0x0A)
      else if e = CHR ''r'' then Some (CHR 0x0D)
      else if e = CHR ''t'' then Some (CHR 0x09)
      else None)"

fun parse_string :: "string \<Rightarrow> string \<Rightarrow> (string \<times> string) option" where
  "parse_string [] acc = None"
| "parse_string [c] acc = (if c = CHR 0x22 then Some (acc, []) else None)"
| "parse_string (c # e # es) acc =
     (if c = CHR 0x22 then Some (acc, e # es)
      else if c = CHR 0x5C then
        (if e = CHR ''u'' then
           (case es of
              h1 # h2 # h3 # h4 # rest \<Rightarrow>
                (case unicode_escape h1 h2 h3 h4 of
                   None \<Rightarrow> None
                 | Some u \<Rightarrow> parse_string rest (acc @ [u]))
            | _ \<Rightarrow> None)
         else (case simple_escape e of
                 None \<Rightarrow> None
               | Some u \<Rightarrow> parse_string es (acc @ [u])))
      else if (of_char c :: nat) < 32 then None
      else parse_string (e # es) (acc @ [c]))"

definition is_digit :: "char \<Rightarrow> bool" where
  "is_digit c = (digit_value c \<noteq> None)"

definition parse_number :: "string \<Rightarrow> (jsval \<times> string) option" where
  "parse_number s =
     (let neg = (s \<noteq> [] \<and> hd s = CHR ''-'');
          r = (if neg then tl s else s);
          ds = takeWhile is_digit r;
          rest = dropWhile is_digit r
      in if ds = [] then None
         else if length ds > 1 \<and> hd ds = CHR ''0'' then None
         else if rest \<noteq> [] \<and> hd rest \<in> {CHR ''.'', CHR ''e'', CHR ''E''} then None
         else (case digits_value ds 0 of
                 None \<Rightarrow> None
               | Some n \<Rightarrow> Some (VNum (if neg then - int n else int n), rest)))"

fun parse_value :: "nat \<Rightarrow> string \<Rightarrow> (jsval \<times> string) option"
  and parse_elements :: "nat \<Rightarrow> string \<Rightarrow> jsval list \<Rightarrow> (jsval \<times> string) option"
  and parse_member :: "nat \<Rightarrow> string \<Rightarrow> (string \<times> jsval) list \<Rightarrow> (jsval \<times> string) option"
  and parse_members :: "nat \<Rightarrow> string \<Rightarrow> (string \<times> jsval) list \<Rightarrow> (jsval \<times> string) option"
  where
  "parse_value 0 s = None"
| "parse_value (Suc fuel) s =
     (case skip_ws s of
        [] \<Rightarrow> None
      | c # cs \<Rightarrow>
          if c = CHR ''['' then
            (case skip_ws cs of
               [] \<Rightarrow> None
             | d # ds \<Rightarrow>
                 if d = CHR '']'' then Some (VArr [], ds)
                 else (case parse_value fuel cs of
                         None \<Rightarrow> None
                       | Some (v, r) \<Rightarrow> parse_elements fuel r [v]))
          else if c = CHR ''{'' then
            (case skip_ws cs of
               [] \<Rightarrow> None
             | d # ds \<Rightarrow>
                 if d = CHR ''}'' then Some (VObj [], ds)
                 else parse_member fuel cs [])
          else if c = CHR 0x22 then
            (case parse_string cs [] of
               None \<Rightarrow> None
             | Some (str, r) \<Rightarrow> Some (VStr str, r))
          else if startsWith (c # cs) ''true'' then Some (VBool True, drop 4 (c # cs))
          else if startsWith (c # cs) ''false'' then Some (VBool False, drop 5 (c # cs))
          else if startsWith (c # cs) ''null'' then Some (VNull, drop 4 (c # cs))
          else parse_number (c # cs))"
| "parse_elements 0 s acc = None"
| "parse_elements (Suc fuel) s acc =
     (case skip_ws s of
        [] \<Rightarrow> None
      | c # cs \<Rightarrow>
          if c = CHR '']'' then Some (VArr acc, cs)
          else if c = CHR '','' then
            (case parse_value fuel cs of
               None \<Rightarrow> None
             | Some (v, r) \<Rightarrow> parse_elements fuel r (acc @ [v]))
          else None)"
| "parse_member 0 s acc = None"
| "parse_member (Suc fuel) s acc =
     (case skip_ws s of
        [] \<Rightarrow> None
      | c # cs \<Rightarrow>
          if c = CHR 0x22 then
            (case parse_string cs [] of
               None \<Rightarrow> None
             | Some (k, r) \<Rightarrow>
                 (case skip_ws r of
                    [] \<Rightarrow> None
                  | d # ds \<Rightarrow>
                      if d = CHR '':'' then
                        (case parse_value fuel ds of
                           None \<Rightarrow> None
                         | Some (v, r') \<Rightarrow> parse_members fuel r' (kv_set k v acc))
                      else None))
          else None)"
| "parse_members 0 s acc = None"
| "parse_members (Suc fuel) s acc =
     (case skip_ws s of
        [] \<Rightarrow> None
      | c # cs \<Rightarrow>
          if c = CHR ''}'' then Some (VObj acc, cs)
          else if c = CHR '','' then parse_member fuel cs acc
          else None)"

definition JSON_parse :: "string \<Rightarrow> jsval option" where
  "JSON_parse s =
     (case parse_value (Suc (length s)) s of
        None \<Rightarrow> None
      | Some (v, r) \<Rightarrow> if skip_ws r = [] then Some v else None)"

section \<open>The secondary index layer (BlobIndexService)\<close>

text \<open>
  The index service keeps its rows in the table \<open>blob_index\<close> of the table store. The blob
  store it also calls (\<open>BlobstoreService\<close>) is not among the sources: the two methods of it
  that the modelled functions call are parameters, which take the state of the blob store
  and return it with their outcome. \<open>now\<close> is what \<open>Date.now()\<close> returns during a call.
\<close>

record blob_metadata =
  key :: string
  contentType :: jsval
  size_m :: int
  createdAt :: int
  checksum :: jsval
  tags :: "(string \<times> jsval) list"
  indexedFields :: "(string \<times> jsval) list option"

record blob_query_options =
  opt_limit :: "int option"

definition BLOB_INDEX_TABLE :: string where
  "BLOB_INDEX_TABLE = ''blob_index''"


definition initializeIndexTable :: "service \<Rightarrow> error option \<times> service" where
  "initializeIndexTable svc =
     (case getTable svc BLOB_INDEX_TABLE of
        Inr t \<Rightarrow> (None, svc)
      | Inl e \<Rightarrow>
          (case createTable svc BLOB_INDEX_TABLE [''metadata'', ''index'', ''content''] of
             (Inl e', svc') \<Rightarrow> (Some e', svc')
           | (Inr t, svc') \<Rightarrow> (None, svc')))"

text \<open>
  \<open>indexBlobMetadata\<close> builds a row and upserts it. \<open>index_row\<close> is the row it builds: the
  four metadata columns, then one column per tag, then one per indexed field (an object,
  an array or \<open>null\<close> as JSON text), then \<open>content:keywords\<close> for a \<open>keywords\<close> array.
\<close>

definition tag_key :: "string \<Rightarrow> string" where
  "tag_key tagName = ''metadata:tag_'' @ tagName"

definition index_key :: "string \<Rightarrow> string" where
  "index_key fieldName = ''index:'' @ fieldName"

definition tag_column :: "int \<Rightarrow> (string \<times> cell) list \<Rightarrow> string \<times> jsval \<Rightarrow> (string \<times> cell) list" where
  "tag_column now cols tag =
     kv_set (tag_key (fst tag)) \<lparr> cell_value = snd tag, cell_timestamp = now \<rparr> cols"

definition index_column :: "int \<Rightarrow> (string \<times> cell) list \<Rightarrow> string \<times> jsval \<Rightarrow> (string \<times> cell) list" where
  "index_column now cols field =
     kv_set (index_key (fst field))
       \<lparr> cell_value = (if typeof (snd field) = ''object''
                        then (case JSON_stringify (snd field) of
                                None \<Rightarrow> VUndefined
                              | Some s \<Rightarrow> VStr s)
                        else snd field),
         cell_timestamp = now \<rparr> cols"

definition keywords_column :: "int \<Rightarrow> blob_metadata \<Rightarrow> (string \<times> cell) list \<Rightarrow> (string \<times> cell) list" where
  "keywords_column now metadata cols =
     (case indexedFields metadata of
        None \<Rightarrow> cols
      | Some flds \<Rightarrow>
          (case kv_get flds ''keywords'' of
             Some (VArr keywords) \<Rightarrow>
               kv_set ''content:keywords''
                 \<lparr> cell_value = VStr (ToString (VArr keywords)), cell_timestamp = now \<rparr> cols
           | _ \<Rightarrow> cols))"

definition index_row :: "blob_metadata \<Rightarrow> int \<Rightarrow> row" where
  "index_row metadata now =
     \<lparr> rowKey = key metadata,
       columns =
         keywords_column now metadata
           (foldl (index_column now)
              (foldl (tag_column now)
                 [(''metadata:contentType'',
                     \<lparr> cell_value = contentType metadata, cell_timestamp = now \<rparr>),
                  (''metadata:size'',
                     \<lparr> cell_value = VNum (size_m metadata), cell_timestamp = now \<rparr>),
                  (''metadata:createdAt'',
                     \<lparr> cell_value = VNum (createdAt metadata), cell_timestamp = now \<rparr>),
                  (''metadata:checksum'',
                     \<lparr> cell_value = (if ToBoolean (checksum metadata) then checksum metadata
                                      else VStr []),
                       cell_timestamp = now \<rparr>)]
                 (tags metadata))
              (case indexedFields metadata of None \<Rightarrow> [] | Some flds \<Rightarrow> flds)),
       timestamp = Some now \<rparr>"

definition indexBlobMetadata :: "service \<Rightarrow> blob_metadata \<Rightarrow> int \<Rightarrow> error option \<times> service" where
  "indexBlobMetadata svc metadata now = upsertRow svc BLOB_INDEX_TABLE (index_row metadata now) now"

text \<open>\<open>rowToIndexedMetadata\<close>: \<open>column_value\<close> is \<open>row.columns[c]?.value\<close>, \<open>Number_or v d\<close> is
  \<open>Number(v) || d\<close>, the two loops collect the tags and the indexed fields, and \<open>revive\<close>
  parses a stored string that looks like a JSON object or array, keeping the string when
  the parse fails.\<close>

definition column_value :: "row \<Rightarrow> string \<Rightarrow> jsval" where
  "column_value r c =
     (case kv_get (columns r) c of None \<Rightarrow> VUndefined | Some cl \<Rightarrow> cell_value cl)"

definition Number_or :: "jsval \<Rightarrow> int \<Rightarrow> int" where
  "Number_or v d = (case ToNumber v of None \<Rightarrow> d | Some n \<Rightarrow> if n = 0 then d else n)"

fun extract_tags :: "(string \<times> cell) list \<Rightarrow> (string \<times> jsval) list \<Rightarrow> (string \<times> jsval) list" where
  "extract_tags [] tgs = tgs"
| "extract_tags ((column, c) # rest) tgs =
     (if startsWith column ''metadata:tag_''
      then extract_tags rest (kv_set (drop (length ''metadata:tag_'') column) (cell_value c) tgs)
      else extract_tags rest tgs)"

definition revive :: "jsval \<Rightarrow> jsval" where
  "revive v =
     (case v of
        VStr s \<Rightarrow>
          if (startsWith s ''{'' \<and> endsWith s ''}'') \<or> (startsWith s ''['' \<and> endsWith s '']'')
          then (case JSON_parse s of None \<Rightarrow> VStr s | Some parsed \<Rightarrow> parsed)
          else VStr s
      | _ \<Rightarrow> v)"

fun extract_indexed :: "(string \<times> cell) list \<Rightarrow> (string \<times> jsval) list \<Rightarrow> (string \<times> jsval) list" where
  "extract_indexed [] flds = flds"
| "extract_indexed ((column, c) # rest) flds =
     (if startsWith column ''index:''
      then extract_indexed rest
             (kv_set (drop (length ''index:'') column) (revive (cell_value c)) flds)
      else extract_indexed rest flds)"

definition rowToIndexedMetadata :: "row \<Rightarrow> int \<Rightarrow> blob_metadata" where
  "rowToIndexedMetadata r now =
     \<lparr> key = rowKey r,
       contentType = (if ToBoolean (column_value r ''metadata:contentType'')
                      then column_value r ''metadata:contentType''
                      else VStr ''application/octet-stream''),
       size_m = Number_or (column_value r ''metadata:size'') 0,
       createdAt = Number_or (column_value r ''metadata:createdAt'') now,
       checksum = column_value r ''metadata:checksum'',
       tags = extract_tags (columns r) [],
       indexedFields = Some (extract_indexed (columns r) []) \<rparr>"

text \<open>
  \<open>searchBlobs\<close>. \<open>rowMatches\<close> is the callback given to \<open>rows.filter\<close>, with its loop over
  the entries of the query; \<open>filter_rows\<close> applies it to the scanned rows in order and
  stops at the first exception. \<open>searchBlobs_try\<close> is the body of the \<open>try\<close> block and
  \<open>searchBlobs\<close> adds the \<open>catch\<close>, which returns the empty list.
\<close>

definition is_given :: "jsval \<Rightarrow> string \<Rightarrow> bool" where
  "is_given v op = (get_prop v op \<noteq> VUndefined)"

fun rowMatches :: "row \<Rightarrow> (string \<times> jsval) list \<Rightarrow> error + bool" where
  "rowMatches r [] = Inr True"
| "rowMatches r ((field, v) # rest) =
     (case kv_get (columns r) (index_key field) of
        None \<Rightarrow> Inr False
      | Some c \<Rightarrow>
          (let indexedValue = cell_value c
           in if typeof v = ''object'' \<and> v \<noteq> VNull then
                (if is_given v ''$gt'' \<and> js_le indexedValue (get_prop v ''$gt'') then Inr False
                 else if is_given v ''$lt'' \<and> js_ge indexedValue (get_prop v ''$lt'') then Inr False
                 else if is_given v ''$eq'' \<and> \<not> strict_equal indexedValue (get_prop v ''$eq'')
                 then Inr False
                 else if is_given v ''$ne'' \<and> strict_equal indexedValue (get_prop v ''$ne'')
                 then Inr False
                 else if is_given v ''$in'' then
                   (case js_includes (get_prop v ''$in'') indexedValue of
                      Inl e \<Rightarrow> Inl e
                    | Inr found \<Rightarrow> if \<not> found then Inr False else rowMatches r rest)
                 else rowMatches r rest)
              else if \<not> strict_equal indexedValue v then Inr False
              else rowMatches r rest))"

fun filter_rows :: "(string \<times> jsval) list \<Rightarrow> row list \<Rightarrow> error + row list" where
  "filter_rows q [] = Inr []"
| "filter_rows q (r # rs) =
     (case rowMatches r q of
        Inl e \<Rightarrow> Inl e
      | Inr keep \<Rightarrow>
          (case filter_rows q rs of
             Inl e \<Rightarrow> Inl e
           | Inr results \<Rightarrow> Inr (if keep then r # results else results)))"

definition scan_query :: "blob_query_options \<Rightarrow> bigtable_query" where
  "scan_query options =
     \<lparr> q_prefix = None, q_startKey = None, q_endKey = None,
       q_limit = Some (if truthy_num (opt_limit options) then the (opt_limit options) else 100),
       q_columnFamilies = None, q_columns = None \<rparr>"

definition searchBlobs_try :: "service \<Rightarrow> (string \<times> jsval) list \<Rightarrow> blob_query_options \<Rightarrow> int
    \<Rightarrow> error + blob_metadata list" where
  "searchBlobs_try svc q options now =
     (case query svc BLOB_INDEX_TABLE (scan_query options) of
        Inl e \<Rightarrow> Inl e
      | Inr scanned \<Rightarrow>
          (case filter_rows q scanned of
             Inl e \<Rightarrow> Inl e
           | Inr results \<Rightarrow> Inr (map (\<lambda>r. rowToIndexedMetadata r now) results)))"

definition searchBlobs :: "service \<Rightarrow> (string \<times> jsval) list \<Rightarrow> blob_query_options \<Rightarrow> int
    \<Rightarrow> blob_metadata list" where
  "searchBlobs svc q options now =
     (case searchBlobs_try svc q options now of
        Inl e \<Rightarrow> []
      | Inr results \<Rightarrow> results)"




section \<open>The search filter in the words of the specification\<close>





text \<open>One round of the loop of \<open>rowMatches\<close>, for the proofs: the outcome of the tests on
  one stored value, \<open>Inr True\<close> when the loop goes on.\<close>

definition field_check :: "jsval \<Rightarrow> jsval \<Rightarrow> error + bool" where
  "field_check indexedValue v =
     (if typeof v = ''object'' \<and> v \<noteq> VNull then
        (if is_given v ''$gt'' \<and> js_le indexedValue (get_prop v ''$gt'') then Inr False
         else if is_given v ''$lt'' \<and> js_ge indexedValue (get_prop v ''$lt'') then Inr False
         else if is_given v ''$eq'' \<and> \<not> strict_equal indexedValue (get_prop v ''$eq'')
         then Inr False
         else if is_given v ''$ne'' \<and> strict_equal indexedValue (get_prop v ''$ne'')
         then Inr False
         else if is_given v ''$in'' then js_includes (get_prop v ''$in'') indexedValue
         else Inr True)
      else Inr (strict_equal indexedValue v))"

section \<open>Example states\<close>

text \<open>A query object with only \<open>startKey\<close> and \<open>endKey\<close>.\<close>

definition range_query :: "string \<Rightarrow> string \<Rightarrow> bigtable_query" where
  "range_query s e = \<lparr> q_prefix = None, q_startKey = Some s, q_endKey = Some e, q_limit = None,
     q_columnFamilies = None, q_columns = None \<rparr>"

text \<open>The table \<open>keywords\<close> of a fresh store after five upserts with keys \<open>a\<close> to \<open>e\<close>.\<close>

definition key_row :: "string \<Rightarrow> row" where
  "key_row k = \<lparr> rowKey = k, columns = [], timestamp = Some 1 \<rparr>"

definition abcde_service :: service where
  "abcde_service =
     snd (upsertRow (snd (upsertRow (snd (upsertRow (snd (upsertRow (snd (upsertRow
       bigtableService ''keywords'' (key_row ''a'') 9)) ''keywords'' (key_row ''b'') 9))
       ''keywords'' (key_row ''c'') 9)) ''keywords'' (key_row ''d'') 9)) ''keywords'' (key_row ''e'') 9)"

text \<open>A table at capacity: \<open>MAX_TABLE_SIZE\<close> rows with the keys \<open>r\<close>, \<open>rr\<close>, \<open>rrr\<close>, ...\<close>

definition numbered_key :: "nat \<Rightarrow> string" where
  "numbered_key n = replicate (Suc n) (CHR ''r'')"

fun numbered_rows :: "nat \<Rightarrow> (string \<times> row) list" where
  "numbered_rows 0 = []"
| "numbered_rows (Suc n) =
     (numbered_key n, \<lparr> rowKey = numbered_key n, columns = [], timestamp = Some 1 \<rparr>)
       # numbered_rows n"

definition full_table :: table where
  "full_table = \<lparr> name = ''keywords'', rows = numbered_rows MAX_TABLE_SIZE,
     columnFamilies = [''pages'', ''stats''] \<rparr>"

definition full_service :: service where
  "full_service = \<lparr> tables = [(''keywords'', full_table)] \<rparr>"

text \<open>The store after the constructor of the index service has run on a fresh table
  store.\<close>

definition blobIndexService :: service where
  "blobIndexService = snd (initializeIndexTable bigtableService)"

text \<open>The metadata of a blob with one indexed field, \<open>rating\<close>.\<close>

definition rated_blob :: "string \<Rightarrow> jsval \<Rightarrow> blob_metadata" where
  "rated_blob k rating =
     \<lparr> key = k, contentType = VStr ''text/plain'', size_m = 10, createdAt = 1000,
       checksum = VStr ''c'', tags = [], indexedFields = Some [(''rating'', rating)] \<rparr>"


text \<open>The index table after indexing three blobs with the ratings 2, 4 and 6, in this
  order.\<close>

definition ratings_service :: service where
  "ratings_service =
     snd (indexBlobMetadata (snd (indexBlobMetadata (snd (indexBlobMetadata blobIndexService
       (rated_blob ''blob2'' (VNum 2)) 2000)) (rated_blob ''blob4'' (VNum 4)) 2000))
       (rated_blob ''blob6'' (VNum 6)) 2000)"


definition gt3 :: "(string \<times> jsval) list" where
  "gt3 = [(''rating'', VObj [(''$gt'', VNum 3)])]"






section \<open>Properties of the collections\<close>

lemma kv_get_kv_set: "kv_get (kv_set k v kvs) k' = (if k' = k then Some v else kv_get kvs k')"
  by (induction kvs) auto


lemma length_kv_set:
  "length (kv_set k v kvs) = (if kv_has kvs k then length kvs else Suc (length kvs))"
  by (induction kvs) auto

lemma str_less_Nil [simp]: "str_less k [] = False"
  by (cases k) auto

section \<open>Properties of the table store\<close>

lemma bigtableService_eq: "bigtableService = \<lparr> tables =
   [(''webpages'', \<lparr> name = ''webpages'', rows = [],
       columnFamilies = [''metadata'', ''content'', ''links'', ''ranking''] \<rparr>),
    (''keywords'', \<lparr> name = ''keywords'', rows = [], columnFamilies = [''pages'', ''stats''] \<rparr>),
    (''crawl_queue'', \<lparr> name = ''crawl_queue'', rows = [],
       columnFamilies = [''status'', ''metadata''] \<rparr>),
    (''user_data'', \<lparr> name = ''user_data'', rows = [],
       columnFamilies = [''search_history'', ''preferences''] \<rparr>)] \<rparr>"
  by (simp add: bigtableService_def initializeDefaultTables_def createTable_def Let_def)

lemma getTable_bigtableService_keywords:
  "getTable bigtableService ''keywords'' =
     Inr \<lparr> name = ''keywords'', rows = [], columnFamilies = [''pages'', ''stats''] \<rparr>"
  by (simp add: bigtableService_eq getTable_def)

lemma abcde_service_eq: "abcde_service = \<lparr> tables =
   [(''webpages'', \<lparr> name = ''webpages'', rows = [],
       columnFamilies = [''metadata'', ''content'', ''links'', ''ranking''] \<rparr>),
    (''keywords'', \<lparr> name = ''keywords'',
        rows = [(''a'', key_row ''a''), (''b'', key_row ''b''), (''c'', key_row ''c''),
                (''d'', key_row ''d''), (''e'', key_row ''e'')],
        columnFamilies = [''pages'', ''stats''] \<rparr>),
    (''crawl_queue'', \<lparr> name = ''crawl_queue'', rows = [],
       columnFamilies = [''status'', ''metadata''] \<rparr>),
    (''user_data'', \<lparr> name = ''user_data'', rows = [],
       columnFamilies = [''search_history'', ''preferences''] \<rparr>)] \<rparr>"
  by (simp add: abcde_service_def bigtableService_eq upsertRow_def getTable_def
      MAX_TABLE_SIZE_def key_row_def Let_def)

lemma length_numbered_rows: "length (numbered_rows n) = n"
  by (induction n) auto

lemma kv_has_numbered_rows: "kv_has (numbered_rows n) k \<longleftrightarrow> (\<exists>i<n. k = numbered_key i)"
  by (induction n) (auto simp: less_Suc_eq)

lemma new_key_fresh: "\<not> kv_has (numbered_rows n) ''new''"
  by (simp add: kv_has_numbered_rows numbered_key_def)

lemma old_key_present: "kv_has (numbered_rows MAX_TABLE_SIZE) ''r''"
  unfolding kv_has_numbered_rows
  by (rule exI [of _ 0]) (simp add: numbered_key_def MAX_TABLE_SIZE_def)

lemma getTable_full_service: "getTable full_service ''keywords'' = Inr full_table"
  by (simp add: getTable_def full_service_def)

text \<open>Once the table is found, \<open>upsertRow\<close> is its three steps: the capacity guard, the
  validation loop, the write.\<close>

lemma upsertRow_cases:
  assumes "getTable svc T = Inr t"
  shows "upsertRow svc T R now =
     (if length (rows t) \<ge> MAX_TABLE_SIZE \<and> \<not> kv_has (rows t) (rowKey R)
      then (Some (CapacityExceeded T), svc)
      else case validateColumnFamilies t T (columns R) of
             Some e \<Rightarrow> (Some e, svc)
           | None \<Rightarrow> (None, svc\<lparr> tables := kv_set T
                (t\<lparr> rows := kv_set (rowKey R)
                   (R\<lparr> timestamp :=
                       Some (if truthy_num (timestamp R) then the (timestamp R) else now) \<rparr>)
                   (rows t) \<rparr>) (tables svc) \<rparr>))"
  using assms by (simp add: upsertRow_def Let_def split: option.splits)

lemma getRow_after_upsertRow:
  assumes "upsertRow svc T R now = (None, svc')"
  shows "getRow svc' T (rowKey R) =
     Inr (Some (R\<lparr> timestamp :=
        Some (if truthy_num (timestamp R) then the (timestamp R) else now) \<rparr>))"
  using assms
  by (auto simp: upsertRow_def getRow_def getTable_def kv_get_kv_set Let_def
      split: sum.splits option.splits if_splits)

lemma validateColumnFamilies_invalid:
  "(c, x) \<in> set cols \<Longrightarrow> split_colon_0 c \<notin> set (columnFamilies t) \<Longrightarrow>
   \<exists>f. validateColumnFamilies t T cols = Some (InvalidColumnFamily f T)
      \<and> f \<notin> set (columnFamilies t)"
  by (induction cols) (auto simp: Let_def)

lemma validateColumnFamilies_Some:
  "validateColumnFamilies t T cols = Some e \<Longrightarrow>
   \<exists>f. e = InvalidColumnFamily f T \<and> f \<notin> set (columnFamilies t)"
  by (induction cols) (auto simp: Let_def split: if_splits)


text \<open>
  Claim C1, as the code has it. When \<open>upsertRow\<close> returns normally, \<open>getRow\<close> on the same
  table and key returns a row whose columns are exactly those of the written row, whatever
  was stored under the key before. Its timestamp is the caller's when that is a nonzero
  number; when the caller gave none, or gave \<open>0\<close>, it is the clock reading \<open>now\<close> taken
  during the call.
\<close>

theorem upsertRow_then_getRow:
  assumes "upsertRow svc T R now = (None, svc')"
  shows "\<exists>r. getRow svc' T (rowKey R) = Inr (Some r) \<and> columns r = columns R
     \<and> timestamp r =
         Some (case timestamp R of None \<Rightarrow> now | Some ts \<Rightarrow> if ts = 0 then now else ts)"
  using getRow_after_upsertRow [OF assms] by (cases "timestamp R") auto

text \<open>Two upserts under one key: only the columns of the second one are read back.\<close>

theorem upsertRow_then_getRow_witness:
  "\<exists>r. getRow (snd (upsertRow (snd (upsertRow bigtableService ''keywords''
        \<lparr> rowKey = ''k'',
          columns = [(''pages:p'', \<lparr> cell_value = VNum 1, cell_timestamp = 3 \<rparr>)],
          timestamp = Some 4 \<rparr> 5)) ''keywords''
        \<lparr> rowKey = ''k'',
          columns = [(''stats:s'', \<lparr> cell_value = VStr ''x'', cell_timestamp = 6 \<rparr>)],
          timestamp = None \<rparr> 7)) ''keywords'' ''k'' = Inr (Some r)
     \<and> columns r = [(''stats:s'', \<lparr> cell_value = VStr ''x'', cell_timestamp = 6 \<rparr>)]
     \<and> timestamp r = Some 7"
proof -
  let ?s1 = "snd (upsertRow bigtableService ''keywords''
        \<lparr> rowKey = ''k'',
          columns = [(''pages:p'', \<lparr> cell_value = VNum 1, cell_timestamp = 3 \<rparr>)],
          timestamp = Some 4 \<rparr> 5)"
  let ?R = "\<lparr> rowKey = ''k'',
          columns = [(''stats:s'', \<lparr> cell_value = VStr ''x'', cell_timestamp = 6 \<rparr>)],
          timestamp = None \<rparr>"
  have ok: "upsertRow ?s1 ''keywords'' ?R 7 = (None, snd (upsertRow ?s1 ''keywords'' ?R 7))"
    by (simp add: upsertRow_def bigtableService_eq getTable_def MAX_TABLE_SIZE_def
        split_colon_0_def Let_def)
  show ?thesis
    using upsertRow_then_getRow [OF ok] by simp
qed

text \<open>
  Claim C1 as stated fails for a supplied timestamp of \<open>0\<close>: the upsert succeeds at clock
  reading \<open>5\<close> and the row read back carries \<open>5\<close>, not the caller's \<open>0\<close>.
\<close>

theorem upsertRow_then_getRow_counterexample:
  "fst (upsertRow bigtableService ''keywords''
        \<lparr> rowKey = ''k'',
          columns = [(''pages:p'', \<lparr> cell_value = VNum 1, cell_timestamp = 3 \<rparr>)],
          timestamp = Some 0 \<rparr> 5) = None
   \<and> getRow (snd (upsertRow bigtableService ''keywords''
        \<lparr> rowKey = ''k'',
          columns = [(''pages:p'', \<lparr> cell_value = VNum 1, cell_timestamp = 3 \<rparr>)],
          timestamp = Some 0 \<rparr> 5)) ''keywords'' ''k''
      = Inr (Some \<lparr> rowKey = ''k'',
          columns = [(''pages:p'', \<lparr> cell_value = VNum 1, cell_timestamp = 3 \<rparr>)],
          timestamp = Some 5 \<rparr>)"
  by (simp add: upsertRow_def getRow_def bigtableService_eq getTable_def MAX_TABLE_SIZE_def
      split_colon_0_def Let_def)

text \<open>
  Claim C2. On a table that holds \<open>MAX_TABLE_SIZE\<close> (10000) rows, an upsert under a key
  the table does not have fails with \<open>CapacityExceeded\<close> and returns the store as it was,
  so the row count is unchanged. An upsert under a key the table already has never fails
  with \<open>CapacityExceeded\<close>, whatever the size of the table, and succeeds when the
  validation loop accepts its columns.
\<close>

theorem upsertRow_capacity:
  assumes "getTable svc T = Inr t"
  shows "(length (rows t) = MAX_TABLE_SIZE \<and> \<not> kv_has (rows t) (rowKey R) \<longrightarrow>
            upsertRow svc T R now = (Some (CapacityExceeded T), svc))
       \<and> (kv_has (rows t) (rowKey R) \<longrightarrow>
            (\<forall>x. fst (upsertRow svc T R now) \<noteq> Some (CapacityExceeded x))
          \<and> (validateColumnFamilies t T (columns R) = None \<longrightarrow>
               fst (upsertRow svc T R now) = None))"
  using validateColumnFamilies_Some [of t T "columns R"]
  by (auto simp: upsertRow_cases [OF assms] split: option.splits)

theorem upsertRow_capacity_witness:
  "MAX_TABLE_SIZE = 10000
   \<and> upsertRow full_service ''keywords'' \<lparr> rowKey = ''new'', columns = [], timestamp = None \<rparr> 5
     = (Some (CapacityExceeded ''keywords''), full_service)
   \<and> fst (upsertRow full_service ''keywords''
        \<lparr> rowKey = ''r'', columns = [], timestamp = None \<rparr> 5) = None"
proof -
  have len: "length (rows full_table) = MAX_TABLE_SIZE"
    by (simp add: full_table_def length_numbered_rows)
  have new: "\<not> kv_has (rows full_table) ''new''"
    by (simp add: full_table_def new_key_fresh)
  have old: "kv_has (rows full_table) ''r''"
    by (simp add: full_table_def old_key_present)
  show ?thesis
    using upsertRow_capacity [OF getTable_full_service,
        of "\<lparr> rowKey = ''new'', columns = [], timestamp = None \<rparr>" 5]
      upsertRow_capacity [OF getTable_full_service,
        of "\<lparr> rowKey = ''r'', columns = [], timestamp = None \<rparr>" 5]
      len new old
    by (simp add: MAX_TABLE_SIZE_def)
qed

text \<open>
  Claim C3, as the code has it. When some column of the row has a family prefix that the
  table does not declare, \<open>upsertRow\<close> fails and returns the store as it was: nothing of
  the row is persisted and the row stored under its key, if any, is the one stored before.
  The capacity guard runs before the validation loop, so the failure is
  \<open>InvalidColumnFamily\<close> when the table is below capacity or already has the key.
\<close>

theorem upsertRow_invalid_family:
  assumes "getTable svc T = Inr t"
    and "(c, x) \<in> set (columns R)"
    and "split_colon_0 c \<notin> set (columnFamilies t)"
  shows "fst (upsertRow svc T R now) \<noteq> None
     \<and> snd (upsertRow svc T R now) = svc
     \<and> getRow (snd (upsertRow svc T R now)) T (rowKey R) = getRow svc T (rowKey R)
     \<and> (length (rows t) < MAX_TABLE_SIZE \<or> kv_has (rows t) (rowKey R) \<longrightarrow>
          (\<exists>f. fst (upsertRow svc T R now) = Some (InvalidColumnFamily f T)
             \<and> f \<notin> set (columnFamilies t)))"
proof -
  obtain f where f: "validateColumnFamilies t T (columns R) = Some (InvalidColumnFamily f T)"
      "f \<notin> set (columnFamilies t)"
    using validateColumnFamilies_invalid [OF assms(2,3)] by blast
  show ?thesis
    using f by (auto simp: upsertRow_cases [OF assms(1)])
qed

theorem upsertRow_invalid_family_witness:
  "upsertRow bigtableService ''keywords''
      \<lparr> rowKey = ''k'',
        columns = [(''pages:p'', \<lparr> cell_value = VNum 1, cell_timestamp = 3 \<rparr>),
                   (''bogus:b'', \<lparr> cell_value = VNum 2, cell_timestamp = 3 \<rparr>)],
        timestamp = None \<rparr> 5
    = (Some (InvalidColumnFamily ''bogus'' ''keywords''), bigtableService)"
proof -
  let ?R = "\<lparr> rowKey = ''k'',
        columns = [(''pages:p'', \<lparr> cell_value = VNum 1, cell_timestamp = 3 \<rparr>),
                   (''bogus:b'', \<lparr> cell_value = VNum 2, cell_timestamp = 3 \<rparr>)],
        timestamp = None \<rparr>"
  have c: "(''bogus:b'', \<lparr> cell_value = VNum 2, cell_timestamp = 3 \<rparr>) \<in> set (columns ?R)"
    by simp
  have n: "split_colon_0 ''bogus:b'' \<notin> set (columnFamilies
      \<lparr> name = ''keywords'', rows = [], columnFamilies = [''pages'', ''stats''] \<rparr>)"
    by (simp add: split_colon_0_def)
  have "fst (upsertRow bigtableService ''keywords'' ?R 5) \<noteq> None
      \<and> snd (upsertRow bigtableService ''keywords'' ?R 5) = bigtableService"
    using upsertRow_invalid_family [OF getTable_bigtableService_keywords c n, of 5] by simp
  moreover have "fst (upsertRow bigtableService ''keywords'' ?R 5)
      = Some (InvalidColumnFamily ''bogus'' ''keywords'')"
    by (simp add: upsertRow_def getTable_bigtableService_keywords MAX_TABLE_SIZE_def
        split_colon_0_def)
  ultimately show ?thesis
    by (simp add: prod_eq_iff)
qed

text \<open>
  Claim C3 as stated fails on a table at capacity: a row under a new key whose only column
  has the undeclared family \<open>bogus\<close> is refused with \<open>CapacityExceeded\<close>, not with
  \<open>InvalidColumnFamily\<close>.
\<close>

theorem upsertRow_invalid_family_counterexample:
  "upsertRow full_service ''keywords''
      \<lparr> rowKey = ''new'',
        columns = [(''bogus:b'', \<lparr> cell_value = VNum 2, cell_timestamp = 3 \<rparr>)],
        timestamp = None \<rparr> 5
    = (Some (CapacityExceeded ''keywords''), full_service)
   \<and> split_colon_0 ''bogus:b'' \<notin> set (columnFamilies full_table)"
  by (simp add: upsertRow_def getTable_full_service full_table_def length_numbered_rows
      new_key_fresh split_colon_0_def)

text \<open>In a query with only \<open>startKey\<close> and \<open>endKey\<close> the loop is a filter on the keys.\<close>

lemma query_loop_range_Cons:
  "query_loop (range_query s e) ((k, r) # rest) acc =
     (if (s \<noteq> [] \<and> str_less k s) \<or> (e \<noteq> [] \<and> str_less e k)
      then query_loop (range_query s e) rest acc
      else query_loop (range_query s e) rest (acc @ [r]))"
  by (simp add: range_query_def)

lemma query_loop_range:
  assumes "e \<noteq> []"
  shows "query_loop (range_query s e) rs acc =
     acc @ map snd (filter (\<lambda>(k, r). \<not> (str_less k s \<or> str_less e k)) rs)"
proof (induction rs arbitrary: acc)
  case Nil
  show ?case by simp
next
  case (Cons p rs)
  obtain k r where p: "p = (k, r)" by (cases p)
  show ?case
    using assms by (auto simp: p query_loop_range_Cons Cons.IH simp del: query_loop.simps)
qed

text \<open>
  Claim C4, as the code has it. For a query with a \<open>startKey\<close> and a non-empty \<open>endKey\<close>
  (and nothing else), the result is the rows of the table in iteration order without those
  whose key is strictly less than \<open>startKey\<close> or strictly greater than \<open>endKey\<close>: both bounds
  are inclusive. An empty \<open>endKey\<close> is falsy and bounds nothing.
\<close>

theorem query_range_inclusive:
  assumes "getTable svc T = Inr t" and "e \<noteq> []"
  shows "query svc T (range_query s e) =
     Inr (map snd (filter (\<lambda>(k, r). \<not> (str_less k s \<or> str_less e k)) (rows t)))"
  using assms by (simp add: query_def query_loop_range)

text \<open>Over the keys \<open>a\<close> to \<open>e\<close>, the bounds \<open>b\<close> and \<open>d\<close> select exactly \<open>b\<close>, \<open>c\<close>, \<open>d\<close>.\<close>

theorem query_range_inclusive_witness:
  "query abcde_service ''keywords'' (range_query ''b'' ''d'') =
     Inr [key_row ''b'', key_row ''c'', key_row ''d'']"
proof -
  have t: "getTable abcde_service ''keywords'' = Inr \<lparr> name = ''keywords'',
        rows = [(''a'', key_row ''a''), (''b'', key_row ''b''), (''c'', key_row ''c''),
                (''d'', key_row ''d''), (''e'', key_row ''e'')],
        columnFamilies = [''pages'', ''stats''] \<rparr>"
    by (simp add: abcde_service_eq getTable_def)
  have e: "''d'' \<noteq> []" by simp
  show ?thesis
    using query_range_inclusive [OF t e, of "''b''"] by simp
qed

text \<open>
  Claim C4 as stated fails for the empty \<open>endKey\<close>: the keys \<open>c\<close>, \<open>d\<close> and \<open>e\<close> are strictly
  greater than it and their rows are returned all the same.
\<close>

theorem query_range_inclusive_counterexample:
  "query abcde_service ''keywords'' (range_query ''b'' '''') =
     Inr [key_row ''b'', key_row ''c'', key_row ''d'', key_row ''e'']
   \<and> str_less '''' ''c''"
  by (simp add: abcde_service_eq query_def getTable_def range_query_def)

text \<open>
  Claim C10. A successful \<open>upsertRow\<close> of a row whose timestamp is \<open>0\<close> stores the clock
  reading \<open>now\<close>. In general the timestamp of the stored row is the caller's nonzero one,
  or \<open>now\<close>.
\<close>

theorem upsertRow_falsy_timestamp:
  assumes "upsertRow svc T R now = (None, svc')"
  shows "(timestamp R = Some 0 \<longrightarrow>
            (\<exists>r. getRow svc' T (rowKey R) = Inr (Some r) \<and> timestamp r = Some now))
       \<and> (\<exists>r ts. getRow svc' T (rowKey R) = Inr (Some r) \<and> timestamp r = Some ts
             \<and> ((timestamp R = Some ts \<and> ts \<noteq> 0) \<or> ts = now))"
  using getRow_after_upsertRow [OF assms] by (cases "timestamp R") auto

theorem upsertRow_falsy_timestamp_witness:
  "\<exists>r. getRow (snd (upsertRow bigtableService ''keywords''
        \<lparr> rowKey = ''z'', columns = [], timestamp = Some 0 \<rparr> 1700000000000)) ''keywords'' ''z''
       = Inr (Some r) \<and> timestamp r = Some 1700000000000"
proof -
  let ?R = "\<lparr> rowKey = ''z'', columns = [], timestamp = Some (0::int) \<rparr>"
  have ok: "upsertRow bigtableService ''keywords'' ?R 1700000000000
      = (None, snd (upsertRow bigtableService ''keywords'' ?R 1700000000000))"
    by (simp add: upsertRow_def bigtableService_eq getTable_def MAX_TABLE_SIZE_def Let_def)
  show ?thesis
    using upsertRow_falsy_timestamp [OF ok] by simp
qed

section \<open>The fuel of the JSON parser\<close>

text \<open>
  Every call of the parser hands a strictly shorter text to the calls it makes, so fuel
  above the length of the text is never used up, and \<open>JSON_parse\<close> gives the parser such
  fuel.
\<close>

lemma length_skip_ws: "length (skip_ws s) \<le> length s"
  by (simp add: skip_ws_def length_dropWhile_le)

lemma skip_ws_Cons: "skip_ws s = c # cs \<Longrightarrow> length cs < length s"
  using length_skip_ws [of s] by simp

lemma parse_string_rest: "parse_string s acc = Some (str, r) \<Longrightarrow> length r < length s"
proof (induction s acc rule: parse_string.induct)
  case (1 acc)
  then show ?case by simp
next
  case (2 c acc)
  then show ?case by (simp split: if_splits)
next
  case (3 c e es acc)
  show ?case
  proof (cases "c = CHR 0x22")
    case True
    then show ?thesis using "3.prems" by simp
  next
    case nq: False
    show ?thesis
    proof (cases "c = CHR 0x5C")
      case False
      then have nc: "\<not> (of_char c :: nat) < 32"
          and p: "parse_string (e # es) (acc @ [c]) = Some (str, r)"
        using "3.prems" nq by (simp_all split: if_splits)
      have "length r < length (e # es)"
        using "3.IH"(3) [OF nq False nc] p by simp
      then show ?thesis by simp
    next
      case bs: True
      show ?thesis
      proof (cases "e = CHR ''u''")
        case True
        then obtain h1 h2 h3 h4 rest u where es: "es = h1 # h2 # h3 # h4 # rest"
            and u: "unicode_escape h1 h2 h3 h4 = Some u"
            and p: "parse_string rest (acc @ [u]) = Some (str, r)"
          using "3.prems" nq bs
          by (auto split: list.splits option.splits)
        have "length r < length rest"
          using "3.IH"(1) [OF nq bs True es refl refl refl u] p by simp
        then show ?thesis by (simp add: es)
      next
        case False
        then obtain u where u: "simple_escape e = Some u"
            and p: "parse_string es (acc @ [u]) = Some (str, r)"
          using "3.prems" nq bs by (auto split: option.splits)
        have "length r < length es"
          using "3.IH"(2) [OF nq bs False u] p by simp
        then show ?thesis by simp
      qed
    qed
  qed
qed

lemma parse_number_rest: "parse_number s = Some (v, r) \<Longrightarrow> length r < length s"
proof -
  assume a: "parse_number s = Some (v, r)"
  define t where "t = (if s \<noteq> [] \<and> hd s = CHR ''-'' then tl s else s)"
  have ne: "takeWhile is_digit t \<noteq> []" and r: "r = dropWhile is_digit t"
    using a by (auto simp: parse_number_def Let_def t_def split: if_splits option.splits)
  have "length (takeWhile is_digit t) + length (dropWhile is_digit t) = length t"
    by (metis length_append takeWhile_dropWhile_id)
  then have "length r < length t"
    using ne r by (cases "takeWhile is_digit t") auto
  moreover have "length t \<le> length s"
    by (simp add: t_def)
  ultimately show ?thesis by simp
qed

lemma parse_rest:
  "(parse_value f s = Some (v, r) \<longrightarrow> length r < length s)"
  "(parse_elements f s acc = Some (v, r) \<longrightarrow> length r < length s)"
  "(parse_member f s macc = Some (v, r) \<longrightarrow> length r < length s)"
  "(parse_members f s macc = Some (v, r) \<longrightarrow> length r < length s)"
proof (induction f s and f s acc and f s macc and f s macc arbitrary: v r and v r and v r and v r
    rule: parse_value_parse_elements_parse_member_parse_members.induct)
  case (1 s)
  then show ?case by simp
next
  case (2 fuel s)
  show ?case
  proof
    assume a: "parse_value (Suc fuel) s = Some (v, r)"
    then obtain c cs where sk: "skip_ws s = c # cs"
      by (cases "skip_ws s") auto
    note len = skip_ws_Cons [OF sk]
    consider (arr) "c = CHR ''[''" | (obj) "c \<noteq> CHR ''[''" "c = CHR ''{''"
      | (str) "c \<noteq> CHR ''[''" "c \<noteq> CHR ''{''" "c = CHR 0x22"
      | (other) "c \<noteq> CHR ''[''" "c \<noteq> CHR ''{''" "c \<noteq> CHR 0x22"
      by blast
    then show "length r < length s"
    proof cases
      case arr
      from a obtain d ds where sk2: "skip_ws cs = d # ds"
        by (cases "skip_ws cs") (auto simp: sk arr)
      show ?thesis
      proof (cases "d = CHR '']''")
        case True
        then have "r = ds" using a by (simp add: sk arr sk2)
        then show ?thesis using skip_ws_Cons [OF sk2] len by simp
      next
        case False
        then obtain v1 r1 where p1: "parse_value fuel cs = Some (v1, r1)"
            and p2: "parse_elements fuel r1 [v1] = Some (v, r)"
          using a by (auto simp: sk arr sk2 split: option.splits)
        have "length r1 < length cs"
          using "2.IH"(1) [OF sk arr sk2 False] p1 by simp
        moreover have "length r < length r1"
          using "2.IH"(2) [OF sk arr sk2 False p1 refl] p2 by simp
        ultimately show ?thesis using len by simp
      qed
    next
      case obj
      from a obtain d ds where sk2: "skip_ws cs = d # ds"
        by (cases "skip_ws cs") (auto simp: sk obj)
      show ?thesis
      proof (cases "d = CHR ''}''")
        case True
        then have "r = ds" using a by (simp add: sk obj sk2)
        then show ?thesis using skip_ws_Cons [OF sk2] len by simp
      next
        case False
        then have "parse_member fuel cs [] = Some (v, r)"
          using a by (simp add: sk obj sk2)
        then have "length r < length cs"
          using "2.IH"(3) [OF sk obj sk2 False] by simp
        then show ?thesis using len by simp
      qed
    next
      case str
      then obtain st where "parse_string cs [] = Some (st, r)"
        using a by (auto simp: sk split: option.splits)
      then show ?thesis
        using parse_string_rest len by fastforce
    next
      case other
      then have "r = drop 4 (c # cs) \<or> r = drop 5 (c # cs) \<or> parse_number (c # cs) = Some (v, r)"
        using a by (auto simp: sk split: if_splits)
      then have "length r < length (c # cs)"
        using parse_number_rest by fastforce
      then show ?thesis using len by simp
    qed
  qed
next
  case (3 s acc)
  then show ?case by simp
next
  case (4 fuel s acc)
  show ?case
  proof
    assume a: "parse_elements (Suc fuel) s acc = Some (v, r)"
    then obtain c cs where sk: "skip_ws s = c # cs"
      by (cases "skip_ws s") auto
    note len = skip_ws_Cons [OF sk]
    show "length r < length s"
    proof (cases "c = CHR '']''")
      case True
      then have "r = cs" using a by (simp add: sk)
      then show ?thesis using len by simp
    next
      case False
      then have comma: "c = CHR '',''"
        using a by (auto simp: sk split: if_splits)
      then obtain v1 r1 where p1: "parse_value fuel cs = Some (v1, r1)"
          and p2: "parse_elements fuel r1 (acc @ [v1]) = Some (v, r)"
        using a False by (auto simp: sk split: option.splits)
      have "length r1 < length cs"
        using "4.IH"(1) [OF sk False comma] p1 by simp
      moreover have "length r < length r1"
        using "4.IH"(2) [OF sk False comma p1 refl] p2 by simp
      ultimately show ?thesis using len by simp
    qed
  qed
next
  case (5 s macc)
  then show ?case by simp
next
  case (6 fuel s macc)
  show ?case
  proof
    assume a: "parse_member (Suc fuel) s macc = Some (v, r)"
    then obtain c cs where sk: "skip_ws s = c # cs"
      by (cases "skip_ws s") auto
    note len = skip_ws_Cons [OF sk]
    have q: "c = CHR 0x22"
      using a by (auto simp: sk split: if_splits)
    obtain k r0 where ps: "parse_string cs [] = Some (k, r0)"
      using a q by (cases "parse_string cs []") (auto simp: sk)
    obtain d ds where sk2: "skip_ws r0 = d # ds"
      using a q ps by (cases "skip_ws r0") (auto simp: sk)
    have colon: "d = CHR '':''"
      using a q ps sk2 by (auto simp: sk split: if_splits)
    obtain v1 r1 where p1: "parse_value fuel ds = Some (v1, r1)"
        and p2: "parse_members fuel r1 (kv_set k v1 macc) = Some (v, r)"
      using a q ps sk2 colon by (auto simp: sk split: option.splits)
    have "length r1 < length ds"
      using "6.IH"(1) [OF sk q ps refl sk2 colon] p1 by simp
    moreover have "length r < length r1"
      using "6.IH"(2) [OF sk q ps refl sk2 colon p1 refl] p2 by simp
    moreover have "length ds < length r0"
      by (rule skip_ws_Cons [OF sk2])
    moreover have "length r0 < length cs"
      by (rule parse_string_rest [OF ps])
    ultimately show "length r < length s" using len by simp
  qed
next
  case (7 s macc)
  then show ?case by simp
next
  case (8 fuel s macc)
  show ?case
  proof
    assume a: "parse_members (Suc fuel) s macc = Some (v, r)"
    then obtain c cs where sk: "skip_ws s = c # cs"
      by (cases "skip_ws s") auto
    note len = skip_ws_Cons [OF sk]
    show "length r < length s"
    proof (cases "c = CHR ''}''")
      case True
      then have "r = cs" using a by (simp add: sk)
      then show ?thesis using len by simp
    next
      case False
      then have comma: "c = CHR '',''"
        using a by (auto simp: sk split: if_splits)
      then have "parse_member fuel cs macc = Some (v, r)"
        using a False by (simp add: sk)
      then have "length r < length cs"
        using "8.IH" [OF sk False comma] by simp
      then show ?thesis using len by simp
    qed
  qed
qed


lemma parse_fuel:
  "length s < f \<Longrightarrow> length s < g \<Longrightarrow> parse_value f s = parse_value g s"
  "length s < f \<Longrightarrow> length s < g \<Longrightarrow> parse_elements f s acc = parse_elements g s acc"
  "length s < f \<Longrightarrow> length s < g \<Longrightarrow> parse_member f s macc = parse_member g s macc"
  "length s < f \<Longrightarrow> length s < g \<Longrightarrow> parse_members f s macc = parse_members g s macc"
proof (induction f s and f s acc and f s macc and f s macc arbitrary: g and g and g and g
    rule: parse_value_parse_elements_parse_member_parse_members.induct)
  case (1 s)
  then show ?case by simp
next
  case (2 fuel s)
  obtain g' where g: "g = Suc g'"
    using "2.prems"(2) by (cases g) auto
  show ?case
  proof (cases "skip_ws s")
    case Nil
    then show ?thesis
      by (simp only: simp_thms g parse_value.simps list.case)
  next
    case sk: (Cons c cs)
    have lc: "length cs < fuel" "length cs < g'"
      using skip_ws_Cons [OF sk] "2.prems" g by simp_all
    show ?thesis
    proof (cases "c = CHR ''[''")
      case arr: True
      show ?thesis
      proof (cases "skip_ws cs")
        case Nil
        then show ?thesis
          by (simp only: simp_thms g parse_value.simps sk list.case arr if_True)
      next
        case sk2: (Cons d ds)
        show ?thesis
        proof (cases "d = CHR '']''")
          case True
          then show ?thesis
            by (simp only: simp_thms g parse_value.simps sk list.case arr if_True sk2)
        next
          case False
          have u: "parse_value (Suc n) s =
              (case parse_value n cs of None \<Rightarrow> None
               | Some (v, r) \<Rightarrow> parse_elements n r [v])" for n
            by (simp only: simp_thms parse_value.simps sk list.case arr if_True sk2 False if_False)
          have e1: "parse_value fuel cs = parse_value g' cs"
            by (rule "2.IH"(1) [OF sk arr sk2 False lc])
          show ?thesis
          proof (cases "parse_value fuel cs")
            case None
            then show ?thesis
              using e1 by (simp only: g u option.case)
          next
            case (Some p)
            obtain v1 r1 where p: "p = (v1, r1)" by (cases p)
            have "length r1 < length cs"
              using parse_rest(1) [of fuel cs v1 r1] Some p by simp
            then have l1: "length r1 < fuel" "length r1 < g'"
              using lc by simp_all
            have e2: "parse_elements fuel r1 [v1] = parse_elements g' r1 [v1]"
              by (rule "2.IH"(2) [OF sk arr sk2 False Some [unfolded p] refl l1])
            have pf: "parse_value fuel cs = Some (v1, r1)"
              using Some p by simp
            have pg: "parse_value g' cs = Some (v1, r1)"
              using e1 pf by simp
            show ?thesis
              by (simp only: g u pf pg option.case prod.case e2)
          qed
        qed
      qed
    next
      case narr: False
      show ?thesis
      proof (cases "c = CHR ''{''")
        case obj: True
        then have obj': "(c = CHR ''{'') = True" by simp
        show ?thesis
        proof (cases "skip_ws cs")
          case Nil
          then show ?thesis
            by (simp only: simp_thms g parse_value.simps sk list.case narr obj' if_True if_False)
        next
          case sk2: (Cons d ds)
          show ?thesis
          proof (cases "d = CHR ''}''")
            case True
            then show ?thesis
              by (simp only: simp_thms g parse_value.simps sk list.case narr obj' if_True if_False sk2)
          next
            case False
            have u: "parse_value (Suc n) s = parse_member n cs []" for n
              by (simp only: simp_thms parse_value.simps sk list.case narr obj' if_True if_False sk2 False)
            have "parse_member fuel cs [] = parse_member g' cs []"
              by (rule "2.IH"(3) [OF sk narr obj sk2 False lc])
            then show ?thesis
              by (simp only: g u)
          qed
        qed
      next
        case False
        then show ?thesis
          by (simp only: simp_thms g parse_value.simps sk list.case narr if_False)
      qed
    qed
  qed
next
  case (3 s acc)
  then show ?case by simp
next
  case (4 fuel s acc)
  obtain g' where g: "g = Suc g'"
    using "4.prems"(2) by (cases g) auto
  show ?case
  proof (cases "skip_ws s")
    case Nil
    then show ?thesis
      by (simp only: simp_thms g parse_elements.simps list.case)
  next
    case sk: (Cons c cs)
    have lc: "length cs < fuel" "length cs < g'"
      using skip_ws_Cons [OF sk] "4.prems" g by simp_all
    show ?thesis
    proof (cases "c = CHR '']''")
      case True
      then show ?thesis
        by (simp only: simp_thms g parse_elements.simps sk list.case if_True)
    next
      case nb: False
      show ?thesis
      proof (cases "c = CHR '',''")
        case False
        then show ?thesis
          by (simp only: simp_thms g parse_elements.simps sk list.case nb if_False)
      next
        case comma: True
        then have comma': "(c = CHR '','') = True" by simp
        have u: "parse_elements (Suc n) s acc =
            (case parse_value n cs of None \<Rightarrow> None
             | Some (v, r) \<Rightarrow> parse_elements n r (acc @ [v]))" for n
          by (simp only: simp_thms parse_elements.simps sk list.case nb if_False comma' if_True)
        have e1: "parse_value fuel cs = parse_value g' cs"
          by (rule "4.IH"(1) [OF sk nb comma lc])
        show ?thesis
        proof (cases "parse_value fuel cs")
          case None
          then show ?thesis
            using e1 by (simp only: g u option.case)
        next
          case (Some p)
          obtain v1 r1 where p: "p = (v1, r1)" by (cases p)
          have "length r1 < length cs"
            using parse_rest(1) [of fuel cs v1 r1] Some p by simp
          then have l1: "length r1 < fuel" "length r1 < g'"
            using lc by simp_all
          have e2: "parse_elements fuel r1 (acc @ [v1]) = parse_elements g' r1 (acc @ [v1])"
            by (rule "4.IH"(2) [OF sk nb comma Some [unfolded p] refl l1])
          have pf: "parse_value fuel cs = Some (v1, r1)"
            using Some p by simp
          have pg: "parse_value g' cs = Some (v1, r1)"
            using e1 pf by simp
          show ?thesis
            by (simp only: g u pf pg option.case prod.case e2)
        qed
      qed
    qed
  qed
next
  case (5 s macc)
  then show ?case by simp
next
  case (6 fuel s macc)
  obtain g' where g: "g = Suc g'"
    using "6.prems"(2) by (cases g) auto
  show ?case
  proof (cases "skip_ws s")
    case Nil
    then show ?thesis
      by (simp only: simp_thms g parse_member.simps list.case)
  next
    case sk: (Cons c cs)
    have lc: "length cs < fuel" "length cs < g'"
      using skip_ws_Cons [OF sk] "6.prems" g by simp_all
    show ?thesis
    proof (cases "c = CHR 0x22")
      case False
      then show ?thesis
        by (simp only: simp_thms g parse_member.simps sk list.case if_False)
    next
      case q: True
      show ?thesis
      proof (cases "parse_string cs []")
        case None
        then show ?thesis
          by (simp only: simp_thms g parse_member.simps sk list.case q if_True option.case)
      next
        case (Some p0)
        obtain k r0 where p0: "p0 = (k, r0)" by (cases p0)
        have ps: "parse_string cs [] = Some (k, r0)" using Some p0 by simp
        have l0: "length r0 < length cs" by (rule parse_string_rest [OF ps])
        show ?thesis
        proof (cases "skip_ws r0")
          case Nil
          then show ?thesis
            by (simp only: simp_thms g parse_member.simps sk list.case q if_True ps option.case prod.case)
        next
          case sk2: (Cons d ds)
          have ld: "length ds < fuel" "length ds < g'"
            using skip_ws_Cons [OF sk2] l0 lc by simp_all
          show ?thesis
          proof (cases "d = CHR '':''")
            case False
            then show ?thesis
              by (simp only: simp_thms g parse_member.simps sk list.case q if_True ps option.case
                  prod.case sk2 if_False)
          next
            case colon: True
            have u: "parse_member (Suc n) s macc =
                (case parse_value n ds of None \<Rightarrow> None
                 | Some (v, r') \<Rightarrow> parse_members n r' (kv_set k v macc))" for n
              by (simp only: simp_thms parse_member.simps sk list.case q if_True ps option.case
                  prod.case sk2 colon)
            have e1: "parse_value fuel ds = parse_value g' ds"
              by (rule "6.IH"(1) [OF sk q ps refl sk2 colon ld])
            show ?thesis
            proof (cases "parse_value fuel ds")
              case None
              then show ?thesis
                using e1 by (simp only: g u option.case)
            next
              case (Some p)
              obtain v1 r1 where p: "p = (v1, r1)" by (cases p)
              have "length r1 < length ds"
                using parse_rest(1) [of fuel ds v1 r1] Some p by simp
              then have l1: "length r1 < fuel" "length r1 < g'"
                using ld by simp_all
              have e2: "parse_members fuel r1 (kv_set k v1 macc)
                  = parse_members g' r1 (kv_set k v1 macc)"
                by (rule "6.IH"(2) [OF sk q ps refl sk2 colon Some [unfolded p] refl l1])
              have pf: "parse_value fuel ds = Some (v1, r1)"
                using Some p by simp
              have pg: "parse_value g' ds = Some (v1, r1)"
                using e1 pf by simp
              show ?thesis
                by (simp only: g u pf pg option.case prod.case e2)
            qed
          qed
        qed
      qed
    qed
  qed
next
  case (7 s macc)
  then show ?case by simp
next
  case (8 fuel s macc)
  obtain g' where g: "g = Suc g'"
    using "8.prems"(2) by (cases g) auto
  show ?case
  proof (cases "skip_ws s")
    case Nil
    then show ?thesis
      by (simp only: simp_thms g parse_members.simps list.case)
  next
    case sk: (Cons c cs)
    have lc: "length cs < fuel" "length cs < g'"
      using skip_ws_Cons [OF sk] "8.prems" g by simp_all
    show ?thesis
    proof (cases "c = CHR ''}''")
      case True
      then show ?thesis
        by (simp only: simp_thms g parse_members.simps sk list.case if_True)
    next
      case nb: False
      show ?thesis
      proof (cases "c = CHR '',''")
        case False
        then show ?thesis
          by (simp only: simp_thms g parse_members.simps sk list.case nb if_False)
      next
        case comma: True
        then have comma': "(c = CHR '','') = True" by simp
        have u: "parse_members (Suc n) s macc = parse_member n cs macc" for n
          by (simp only: simp_thms parse_members.simps sk list.case nb if_False comma' if_True)
        have "parse_member fuel cs macc = parse_member g' cs macc"
          by (rule "8.IH" [OF sk nb comma lc])
        then show ?thesis
          by (simp only: g u)
      qed
    qed
  qed
qed

text \<open>The fuel that \<open>JSON_parse\<close> gives is never used up: more fuel changes nothing.\<close>

lemma JSON_parse_fuel:
  "length s < f \<Longrightarrow>
   JSON_parse s = (case parse_value f s of
                     None \<Rightarrow> None
                   | Some (v, r) \<Rightarrow> if skip_ws r = [] then Some v else None)"
  using parse_fuel(1) [of s "Suc (length s)" f] by (simp add: JSON_parse_def)

section \<open>Properties of the index layer\<close>

lemmas json_defs = JSON_parse_def skip_ws_def is_json_ws_def parse_number_def is_digit_def
  digit_value_def QuoteJSONString_def json_escape_def int_digits_def nat_digits.simps
  simple_escape_def unicode_escape_def hex_value_def

lemmas eval_defs = json_defs indexBlobMetadata_def index_row_def keywords_column_def
  index_column_def tag_column_def index_key_def tag_key_def upsertRow_def getTable_def MAX_TABLE_SIZE_def
  split_colon_0_def BLOB_INDEX_TABLE_def initializeIndexTable_def createTable_def
  bigtableService_eq blobIndexService_def rated_blob_def searchBlobs_def searchBlobs_try_def
  query_def scan_query_def rowToIndexedMetadata_def column_value_def Number_or_def
  revive_def endsWith_def is_given_def js_le_def js_ge_def IsLessThan_def Let_def

lemma ratings_service_rows:
  "getTable ratings_service BLOB_INDEX_TABLE = Inr
     \<lparr> name = ''blob_index'',
       rows = [(''blob2'', index_row (rated_blob ''blob2'' (VNum 2)) 2000),
               (''blob4'', index_row (rated_blob ''blob4'' (VNum 4)) 2000),
               (''blob6'', index_row (rated_blob ''blob6'' (VNum 6)) 2000)],
       columnFamilies = [''metadata'', ''index'', ''content''] \<rparr>"
  by (simp add: ratings_service_def eval_defs)




lemma startsWith_append [simp]: "startsWith (p @ s) p"
  by (induction p) auto












lemma rowMatches_Cons:
  "rowMatches r ((field, v) # rest) =
     (case kv_get (columns r) (index_key field) of
        None \<Rightarrow> Inr False
      | Some c \<Rightarrow>
          (case field_check (cell_value c) v of
             Inl e \<Rightarrow> Inl e
           | Inr ok \<Rightarrow> if ok then rowMatches r rest else Inr False))"
  by (simp add: field_check_def Let_def split: option.splits sum.splits)



text \<open>Whether \<open>includes\<close> can be called depends on the operand alone.\<close>

lemma js_includes_Inl: "js_includes op v = Inl e \<Longrightarrow> js_includes op v' = Inl e"
  by (cases op) auto

lemma field_check_Inl:
  assumes "field_check iv v = Inl e"
  shows "field_check iv' v \<noteq> Inr True"
proof -
  have "typeof v = ''object'' \<and> v \<noteq> VNull \<and> is_given v ''$in''
      \<and> js_includes (get_prop v ''$in'') iv = Inl e"
    using assms by (simp add: field_check_def split: if_splits)
  then show ?thesis
    by (simp add: field_check_def js_includes_Inl [of _ iv e iv'])
qed

lemma rowMatches_raise_none_survive:
  "rowMatches r q = Inl e \<Longrightarrow> rowMatches r' q \<noteq> Inr True"
proof (induction q)
  case Nil
  then show ?case by simp
next
  case (Cons p q)
  obtain field v where p: "p = (field, v)" by (cases p)
  from Cons.prems obtain c where c: "kv_get (columns r) (index_key field) = Some c"
    by (cases "kv_get (columns r) (index_key field)")
       (auto simp: p rowMatches_Cons simp del: rowMatches.simps)
  show ?case
  proof (cases "field_check (cell_value c) v")
    case (Inl e')
    then show ?thesis
      using field_check_Inl [OF Inl]
      by (auto simp: p rowMatches_Cons simp del: rowMatches.simps
          split: option.splits sum.splits)
  next
    case (Inr ok)
    then have "rowMatches r q = Inl e"
      using Cons.prems by (auto simp: p c rowMatches_Cons simp del: rowMatches.simps split: if_splits)
    from Cons.IH [OF this] show ?thesis
      by (auto simp: p rowMatches_Cons simp del: rowMatches.simps
          split: option.splits sum.splits if_splits)
  qed
qed

lemma filter_rows_Inr:
  "filter_rows q rs = Inr res \<Longrightarrow> res = filter (\<lambda>r. rowMatches r q = Inr True) rs"
  by (induction rs arbitrary: res) (auto split: sum.splits if_splits)

lemma filter_rows_Inl:
  "filter_rows q rs = Inl e \<Longrightarrow> filter (\<lambda>r. rowMatches r q = Inr True) rs = []"
proof (induction rs)
  case Nil
  then show ?case by simp
next
  case (Cons r rs)
  show ?case
  proof (cases "rowMatches r q")
    case (Inl e')
    have "\<And>r'. rowMatches r' q \<noteq> Inr True"
      using rowMatches_raise_none_survive [OF Inl] .
    then show ?thesis by (simp add: filter_empty_conv)
  next
    case (Inr keep)
    then have tail: "filter_rows q rs = Inl e"
      using Cons.prems by (auto split: sum.splits)
    then obtain r0 e0 where "r0 \<in> set rs" "rowMatches r0 q = Inl e0"
      by (induction rs) (auto split: sum.splits)
    then have "rowMatches r q \<noteq> Inr True"
      using rowMatches_raise_none_survive by blast
    then show ?thesis
      using Cons.IH [OF tail] by simp
  qed
qed

lemma filter_rows_catch:
  "(case filter_rows q rs of Inl e \<Rightarrow> [] | Inr res \<Rightarrow> res)
     = filter (\<lambda>r. rowMatches r q = Inr True) rs"
  by (cases "filter_rows q rs") (auto dest: filter_rows_Inl filter_rows_Inr)

lemma query_loop_limit:
  assumes "q = \<lparr> q_prefix = None, q_startKey = None, q_endKey = None, q_limit = Some L,
       q_columnFamilies = None, q_columns = None \<rparr>"
    and "0 < L"
  shows "int (length acc) < L \<Longrightarrow>
     query_loop q rs acc = acc @ map snd (take (nat L - length acc) rs)"
proof (induction rs arbitrary: acc)
  case Nil
  show ?case by simp
next
  case (Cons p rs)
  obtain k r where p: "p = (k, r)" by (cases p)
  show ?case
  proof (cases "int (length (acc @ [r])) \<ge> L")
    case True
    then have "nat L - length acc = 1"
      using Cons.prems assms(2) by auto
    then show ?thesis
      using True assms by (simp add: p)
  next
    case False
    then have lt: "int (length (acc @ [r])) < L" by simp
    have "nat L - length acc = Suc (nat L - length (acc @ [r]))"
      using lt by auto
    then show ?thesis
      using False assms Cons.IH [OF lt] by (simp add: p)
  qed
qed

lemma searchBlobs_catch:
  assumes "query svc BLOB_INDEX_TABLE (scan_query opts) = Inr scanned"
  shows "searchBlobs svc q opts now =
     map (\<lambda>r. rowToIndexedMetadata r now) (filter (\<lambda>r. rowMatches r q = Inr True) scanned)"
proof (cases "filter_rows q scanned")
  case (Inl e)
  then show ?thesis
    using assms filter_rows_Inl [OF Inl] by (simp add: searchBlobs_def searchBlobs_try_def)
next
  case (Inr res)
  then show ?thesis
    using assms filter_rows_Inr [OF Inr] by (simp add: searchBlobs_def searchBlobs_try_def)
qed

lemma scan_take:
  assumes "getTable svc BLOB_INDEX_TABLE = Inr t"
    and "0 < (if truthy_num (opt_limit opts) then the (opt_limit opts) else 100)"
  shows "query svc BLOB_INDEX_TABLE (scan_query opts) =
     Inr (map snd (take (nat (if truthy_num (opt_limit opts) then the (opt_limit opts) else 100))
        (rows t)))"
  using assms query_loop_limit [OF scan_query_def assms(2), of "[]" "rows t"]
  by (simp add: query_def)


lemma rated_row_matches:
  "rowMatches (index_row (rated_blob k (VNum n)) t) gt3 = Inr (3 < n)"
  "rowMatches (index_row (rated_blob k (VStr ''n/a'')) t) gt3 = Inr True"
  by (simp_all add: gt3_def index_row_def rated_blob_def keywords_column_def index_column_def
      tag_column_def index_key_def is_given_def js_le_def IsLessThan_def StringToNumber_def
      trim_def is_white_def digit_value_def Let_def)

lemma rated_row_roundtrip:
  "rowToIndexedMetadata (index_row (rated_blob k (VNum n)) t) now = rated_blob k (VNum n)"
  "rowToIndexedMetadata (index_row (rated_blob k (VStr ''n/a'')) t) now = rated_blob k (VStr ''n/a'')"
  by (simp_all add: index_row_def rated_blob_def keywords_column_def index_column_def
      tag_column_def index_key_def rowToIndexedMetadata_def column_value_def Number_or_def
      revive_def endsWith_def)




text \<open>
  Claim C7. With a positive scan limit (\<open>options.limit\<close>, or 100 when that is missing or 0)
  \<open>searchBlobs\<close> evaluates the field predicates on the first \<open>limit\<close> rows of the index table
  only (first part). So there is a store with more than \<open>limit\<close> rows in which at least
  \<open>limit\<close> rows match, for which fewer than \<open>limit\<close> blobs are returned (second part).
\<close>

theorem searchBlobs_limit_before_filter:
  "(getTable svc BLOB_INDEX_TABLE = Inr t
      \<and> 0 < (if truthy_num (opt_limit opts) then the (opt_limit opts) else 100) \<longrightarrow>
      searchBlobs svc q opts now =
        map (\<lambda>r. rowToIndexedMetadata r now)
          (filter (\<lambda>r. rowMatches r q = Inr True)
             (map snd (take (nat (if truthy_num (opt_limit opts) then the (opt_limit opts) else 100))
                (rows t)))))
   \<and> (\<exists>s lim tb. getTable s BLOB_INDEX_TABLE = Inr tb
        \<and> lim < int (length (rows tb))
        \<and> int (length (searchBlobs s gt3 \<lparr> opt_limit = Some lim \<rparr> now)) < lim
        \<and> lim \<le> int (length (filter (\<lambda>r. rowMatches r gt3 = Inr True) (map snd (rows tb)))))"
proof -
  have general: "searchBlobs s q' o' now =
        map (\<lambda>r. rowToIndexedMetadata r now)
          (filter (\<lambda>r. rowMatches r q' = Inr True)
             (map snd (take (nat (if truthy_num (opt_limit o') then the (opt_limit o') else 100))
                (rows tb))))"
    if "getTable s BLOB_INDEX_TABLE = Inr tb"
      and "0 < (if truthy_num (opt_limit o') then the (opt_limit o') else 100)"
    for s q' o' tb
    using searchBlobs_catch [OF scan_take [OF that]] .
  have "int (length (searchBlobs ratings_service gt3 \<lparr> opt_limit = Some 2 \<rparr> now)) < 2"
    by (simp add: general [OF ratings_service_rows] rated_row_matches)
  moreover have "2 \<le> int (length (filter (\<lambda>r. rowMatches r gt3 = Inr True)
      (map snd (rows \<lparr> name = ''blob_index'',
       rows = [(''blob2'', index_row (rated_blob ''blob2'' (VNum 2)) 2000),
               (''blob4'', index_row (rated_blob ''blob4'' (VNum 4)) 2000),
               (''blob6'', index_row (rated_blob ''blob6'' (VNum 6)) 2000)],
       columnFamilies = [''metadata'', ''index'', ''content''] \<rparr>))))"
    by (simp add: rated_row_matches)
  ultimately have "\<exists>s lim tb. getTable s BLOB_INDEX_TABLE = Inr tb
        \<and> lim < int (length (rows tb))
        \<and> int (length (searchBlobs s gt3 \<lparr> opt_limit = Some lim \<rparr> now)) < lim
        \<and> lim \<le> int (length (filter (\<lambda>r. rowMatches r gt3 = Inr True) (map snd (rows tb))))"
    using ratings_service_rows
    by (intro exI [of _ ratings_service] exI [of _ 2] exI) (rule conjI, assumption, simp)
  then show ?thesis
    using general [of svc t opts q] by blast
qed

text \<open>Three rows with the ratings 2, 4, 6 and the limit 2: two rows match \<open>{rating: {$gt: 3}}\<close>,
  one blob is returned.\<close>

theorem searchBlobs_limit_before_filter_witness:
  "searchBlobs ratings_service gt3 \<lparr> opt_limit = Some 2 \<rparr> 3000 = [rated_blob ''blob4'' (VNum 4)]
   \<and> filter (\<lambda>r. rowMatches r gt3 = Inr True)
       [index_row (rated_blob ''blob2'' (VNum 2)) 2000,
        index_row (rated_blob ''blob4'' (VNum 4)) 2000,
        index_row (rated_blob ''blob6'' (VNum 6)) 2000]
     = [index_row (rated_blob ''blob4'' (VNum 4)) 2000,
        index_row (rated_blob ''blob6'' (VNum 6)) 2000]"
proof -
  have pos: "0 < (if truthy_num (opt_limit \<lparr> opt_limit = Some 2 \<rparr>)
      then the (opt_limit \<lparr> opt_limit = Some 2 \<rparr>) else 100)"
    by simp
  show ?thesis
    using searchBlobs_limit_before_filter [of ratings_service _ "\<lparr> opt_limit = Some 2 \<rparr>" gt3 3000]
      ratings_service_rows pos
    by (simp add: rated_row_matches rated_row_roundtrip IsLessThan_def)
qed

text \<open>
  Claim C9. The whole body of \<open>searchBlobs\<close> is inside \<open>try\<close>: whenever it raises, and in
  particular when the scan of the index table fails or the table is absent, the result is
  the empty list.
\<close>

theorem searchBlobs_never_raises:
  "(searchBlobs_try svc q opts now = Inl e \<longrightarrow> searchBlobs svc q opts now = [])
   \<and> (query svc BLOB_INDEX_TABLE (scan_query opts) = Inl e \<longrightarrow> searchBlobs svc q opts now = [])
   \<and> (getTable svc BLOB_INDEX_TABLE = Inl e \<longrightarrow> searchBlobs svc q opts now = [])"
  by (auto simp: searchBlobs_def searchBlobs_try_def query_def)

text \<open>A store without the index table: before the index service creates it, and after
  \<open>deleteTable\<close>.\<close>

theorem searchBlobs_never_raises_witness:
  "getTable bigtableService BLOB_INDEX_TABLE = Inl (NotFound ''blob_index'')
   \<and> searchBlobs bigtableService gt3 \<lparr> opt_limit = None \<rparr> 3000 = []
   \<and> searchBlobs (snd (deleteTable ratings_service BLOB_INDEX_TABLE)) gt3
        \<lparr> opt_limit = None \<rparr> 3000 = []"
proof -
  have a: "getTable bigtableService BLOB_INDEX_TABLE = Inl (NotFound ''blob_index'')"
    by (simp add: bigtableService_eq getTable_def BLOB_INDEX_TABLE_def)
  have b: "getTable (snd (deleteTable ratings_service BLOB_INDEX_TABLE)) BLOB_INDEX_TABLE
      = Inl (NotFound ''blob_index'')"
    by (simp add: deleteTable_def ratings_service_def eval_defs)
  show ?thesis
    using searchBlobs_never_raises [of bigtableService gt3 "\<lparr> opt_limit = None \<rparr>" 3000
        "NotFound ''blob_index''"]
      searchBlobs_never_raises [of "snd (deleteTable ratings_service BLOB_INDEX_TABLE)" gt3
        "\<lparr> opt_limit = None \<rparr>" 3000 "NotFound ''blob_index''"]
      a b
    by simp
qed
















lemma index_key_inject [simp]: "index_key f = index_key g \<longleftrightarrow> f = g"
  by (simp add: index_key_def)









end
